theory Spec2Isabelle
  imports Complex_Main
begin

section \<open>MetronomeCore: a lookahead beat scheduler\<close>

text \<open>
  A shallow embedding of \<^verbatim>\<open>src/core/MetronomeCore.ts\<close>.

  Conventions of the embedding.
  \<^item> Times, tempo and frequencies are JavaScript numbers. They are modelled as exact
    reals: finite values, no rounding, no \<^verbatim>\<open>NaN\<close> and no \<^verbatim>\<open>Infinity\<close>. The one place
    where this matters is \<^verbatim>\<open>60 / bpm\<close> at \<open>bpm = 0\<close> (JavaScript: \<^verbatim>\<open>Infinity\<close>, HOL: \<open>0\<close>);
    every statement that depends on the interval has \<open>bpm \<noteq> 0\<close> among its hypotheses, or
    hypotheses that force it.
  \<^item> Beat counts and beat indices (\<^verbatim>\<open>_meter\<close>, \<^verbatim>\<open>_pulse\<close>, \<^verbatim>\<open>beatIndex\<close>) are modelled as
    integers.
  \<^item> Arrays are values. An array given to the constructor or to \<^verbatim>\<open>setMeter\<close> is stored
    without being copied; what its owner does to it afterwards is not modelled.
  \<^item> A callback is known by its identity only (\<^verbatim>\<open>indexOf\<close> compares function objects by
    reference); invoking it is recorded in the trace. A callback does not call back into
    the metronome while it is being notified, and does not throw.
  \<^item> The audio engine is an external sink: every time-stamped request made to it is
    recorded in the trace, and the model carries on after each request. The Web Audio API
    answers some requests with a \<^verbatim>\<open>RangeError\<close> (\<open>rangeError\<close> below says which); what the
    model says of a run is what the code does up to the first such request. The audio clock
    \<^verbatim>\<open>audioContext.currentTime\<close> is an argument of every operation that reads it.
  \<^item> \<^verbatim>\<open>start()\<close> is modelled from its call to the completion of its promise, with the
    acquisition of the audio context succeeding.
\<close>

subsection \<open>Data model\<close>

type_synonym callback = nat

text \<open>\<^verbatim>\<open>MetronomeState\<close> of \<^verbatim>\<open>types.ts\<close>; the private fields of the class that hold the
  same data (\<^verbatim>\<open>_isPlaying\<close>, \<^verbatim>\<open>_pulse\<close>, \<^verbatim>\<open>_meter\<close>, \<^verbatim>\<open>_bpm\<close>, \<^verbatim>\<open>_accents\<close>) are the first fields
  of the class record below.\<close>

record MetronomeState =
  isPlaying :: bool
  pulse :: int
  meter :: int
  bpm :: real
  accents :: "bool list"

text \<open>What the metronome does to the outside world: calls of observers and requests to
  the audio engine, each with the arguments of the call.\<close>

datatype event =
    TickCall callback int bool real
  | StateCall callback MetronomeState
  | FrequencySetValueAtTime real real
  | GainCancelScheduledValues real
  | GainSetValueAtTime real real
  | GainLinearRampToValueAtTime real real
  | GainExponentialRampToValueAtTime real real

record MetronomeCore = MetronomeState +
  audioContext :: bool
  oscillator :: bool
  gainNode :: bool
  nextTickTime :: real
  lastTickTime :: real
  timeOffset :: real
  scheduleIntervalId :: "real option"
  lookahead :: real
  scheduleAheadTime :: real
  minBpm :: real
  maxBpm :: real
  accentFrequency :: real
  normalFrequency :: real
  stateChangeCallbacks :: "callback list"
  tickCallbacks :: "callback list"
  trace :: "event list"

text \<open>\<^verbatim>\<open>MetronomeConfig\<close> of \<^verbatim>\<open>types.ts\<close>: every field is optional.\<close>

record MetronomeConfig =
  cfg_bpm :: "real option"
  cfg_meter :: "int option"
  cfg_accents :: "bool list option"
  cfg_lookahead :: "real option"
  cfg_scheduleAheadTime :: "real option"
  cfg_minBpm :: "real option"
  cfg_maxBpm :: "real option"
  cfg_accentFrequency :: "real option"
  cfg_normalFrequency :: "real option"

datatype error = RangeError

text \<open>A method that throws leaves the object behind in the state it had reached.\<close>

datatype outcome = Returned MetronomeCore | Threw error MetronomeCore

fun state_of :: "outcome \<Rightarrow> MetronomeCore" where
  "state_of (Returned s) = s"
| "state_of (Threw e s) = s"

subsection \<open>JavaScript primitives\<close>

text \<open>\<^verbatim>\<open>a ?? b\<close>\<close>

fun nullish :: "'a option \<Rightarrow> 'a \<Rightarrow> 'a" where
  "nullish None d = d"
| "nullish (Some v) d = v"

text \<open>\<^verbatim>\<open>xs[i]\<close>: reading an array out of its bounds gives \<^verbatim>\<open>undefined\<close>, it does not throw.\<close>

definition js_index :: "'a list \<Rightarrow> int \<Rightarrow> 'a option" where
  "js_index xs i = (if 0 \<le> i \<and> i < int (length xs) then Some (xs ! nat i) else None)"

text \<open>\<^verbatim>\<open>new Array(n).fill(v)\<close>: a length that is negative or above \<open>2^32 - 1\<close> is a
  \<^verbatim>\<open>RangeError\<close>.\<close>

definition new_Array_fill :: "int \<Rightarrow> 'a \<Rightarrow> error + 'a list" where
  "new_Array_fill n v = (if n < 0 \<or> 4294967295 < n then Inl RangeError else Inr (replicate (nat n) v))"

text \<open>\<^verbatim>\<open>xs.indexOf(x)\<close> followed by \<^verbatim>\<open>if (index > -1) xs.splice(index, 1)\<close>\<close>

fun indexOf :: "'a list \<Rightarrow> 'a \<Rightarrow> int" where
  "indexOf [] x = -1"
| "indexOf (y # ys) x = (if y = x then 0 else (let i = indexOf ys x in if i > -1 then i + 1 else -1))"

definition splice1 :: "'a list \<Rightarrow> int \<Rightarrow> 'a list" where
  "splice1 xs i = take (nat i) xs @ drop (nat i + 1) xs"

subsection \<open>Construction and state\<close>

definition createDefaultAccents :: "int \<Rightarrow> error + bool list" where
  "createDefaultAccents m =
     (case new_Array_fill m False of
        Inl e \<Rightarrow> Inl e
      | Inr a \<Rightarrow> Inr (if m > 0 then a[0 := True] else a))"

definition constructor :: "MetronomeConfig \<Rightarrow> error + MetronomeCore" where
  "constructor config =
     (let b = nullish (cfg_bpm config) 90;
          m = nullish (cfg_meter config) 4
      in case (case cfg_accents config of Some a \<Rightarrow> Inr a | None \<Rightarrow> createDefaultAccents m) of
           Inl e \<Rightarrow> Inl e
         | Inr a \<Rightarrow> Inr
            \<lparr> isPlaying = False, pulse = 0, meter = m, bpm = b, accents = a,
              audioContext = False, oscillator = False, gainNode = False,
              nextTickTime = 0, lastTickTime = 0, timeOffset = 0,
              scheduleIntervalId = None,
              lookahead = nullish (cfg_lookahead config) 25,
              scheduleAheadTime = nullish (cfg_scheduleAheadTime config) (1 / 10),
              minBpm = nullish (cfg_minBpm config) 30,
              maxBpm = nullish (cfg_maxBpm config) 300,
              accentFrequency = nullish (cfg_accentFrequency config) 1200,
              normalFrequency = nullish (cfg_normalFrequency config) 800,
              stateChangeCallbacks = [], tickCallbacks = [], trace = [] \<rparr>)"

definition emptyConfig :: MetronomeConfig where
  "emptyConfig = \<lparr> cfg_bpm = None, cfg_meter = None, cfg_accents = None, cfg_lookahead = None,
     cfg_scheduleAheadTime = None, cfg_minBpm = None, cfg_maxBpm = None,
     cfg_accentFrequency = None, cfg_normalFrequency = None \<rparr>"

text \<open>The getter \<^verbatim>\<open>state\<close>: a snapshot, with a copy of the accents.\<close>

definition state :: "MetronomeCore \<Rightarrow> MetronomeState" where
  "state s = \<lparr> isPlaying = isPlaying s, pulse = pulse s, meter = meter s, bpm = bpm s,
               accents = accents s \<rparr>"

definition emit :: "event list \<Rightarrow> MetronomeCore \<Rightarrow> MetronomeCore" where
  "emit evs s = s\<lparr> trace := trace s @ evs \<rparr>"

definition notifyStateChange :: "MetronomeCore \<Rightarrow> MetronomeCore" where
  "notifyStateChange s =
     (let st = state s in emit (map (\<lambda>callback. StateCall callback st) (stateChangeCallbacks s)) s)"

subsection \<open>Setters\<close>

definition set_bpm :: "real \<Rightarrow> MetronomeCore \<Rightarrow> MetronomeCore" where
  "set_bpm v s = notifyStateChange (s\<lparr> bpm := max (minBpm s) (min (maxBpm s) v) \<rparr>)"

definition set_meter :: "int \<Rightarrow> MetronomeCore \<Rightarrow> outcome" where
  "set_meter v s =
     (if v < 1 then Returned s
      else let s1 = s\<lparr> meter := v \<rparr>
           in case createDefaultAccents v of
                Inl e \<Rightarrow> Threw e s1
              | Inr a \<Rightarrow> Returned (notifyStateChange (s1\<lparr> accents := a \<rparr>)))"

definition set_accents :: "bool list \<Rightarrow> MetronomeCore \<Rightarrow> MetronomeCore" where
  "set_accents v s = notifyStateChange (s\<lparr> accents := v \<rparr>)"

definition increaseBpm :: "real \<Rightarrow> MetronomeCore \<Rightarrow> MetronomeCore" where
  "increaseBpm amount s = set_bpm (bpm s + amount) s"

definition decreaseBpm :: "real \<Rightarrow> MetronomeCore \<Rightarrow> MetronomeCore" where
  "decreaseBpm amount s = set_bpm (bpm s - amount) s"

definition setMeter :: "int \<Rightarrow> bool list option \<Rightarrow> MetronomeCore \<Rightarrow> outcome" where
  "setMeter m a s =
     (if m < 1 then Returned s
      else let s1 = s\<lparr> meter := m \<rparr>
           in case (case a of Some a' \<Rightarrow> Inr a' | None \<Rightarrow> createDefaultAccents m) of
                Inl e \<Rightarrow> Threw e s1
              | Inr a' \<Rightarrow> Returned (notifyStateChange (s1\<lparr> accents := a' \<rparr>)))"

definition toggleAccent :: "int \<Rightarrow> MetronomeCore \<Rightarrow> MetronomeCore" where
  "toggleAccent beatIndex s =
     (if beatIndex \<ge> 0 \<and> beatIndex < int (length (accents s))
      then notifyStateChange
             (s\<lparr> accents := (accents s)[nat beatIndex := \<not> accents s ! nat beatIndex] \<rparr>)
      else s)"

definition setAccent :: "int \<Rightarrow> bool \<Rightarrow> MetronomeCore \<Rightarrow> MetronomeCore" where
  "setAccent beatIndex v s =
     (if beatIndex \<ge> 0 \<and> beatIndex < int (length (accents s))
      then notifyStateChange (s\<lparr> accents := (accents s)[nat beatIndex := v] \<rparr>)
      else s)"

subsection \<open>Audio\<close>

definition initAudioContext :: "MetronomeCore \<Rightarrow> MetronomeCore" where
  "initAudioContext s = (if \<not> audioContext s then s\<lparr> audioContext := True \<rparr> else s)"

definition createOscillator :: "MetronomeCore \<Rightarrow> MetronomeCore" where
  "createOscillator s =
     (if \<not> audioContext s \<or> oscillator s then s
      else s\<lparr> oscillator := True, gainNode := True \<rparr>)"

definition cleanupAudioNodes :: "MetronomeCore \<Rightarrow> MetronomeCore" where
  "cleanupAudioNodes s =
     (let s1 = (if oscillator s then s\<lparr> oscillator := False \<rparr> else s)
      in if gainNode s1 then s1\<lparr> gainNode := False \<rparr> else s1)"

definition playTick :: "real \<Rightarrow> MetronomeCore \<Rightarrow> MetronomeCore" where
  "playTick time s =
     (if \<not> audioContext s then s
      else let s1 = (if \<not> oscillator s then createOscillator s else s)
           in if \<not> oscillator s1 \<or> \<not> gainNode s1 then s1
              else let isAccented = nullish (js_index (accents s1) (pulse s1 - 1)) False;
                       frequency = (if isAccented then accentFrequency s1 else normalFrequency s1);
                       attackTime = 1 / 1000;
                       decayTime = 5 / 100
                   in emit [FrequencySetValueAtTime frequency time,
                            GainCancelScheduledValues time,
                            GainSetValueAtTime 0 time,
                            GainLinearRampToValueAtTime (3 / 2) (time + attackTime),
                            GainExponentialRampToValueAtTime (1 / 100) (time + attackTime + decayTime),
                            GainSetValueAtTime 0 (time + attackTime + decayTime + 1 / 100)] s1)"

text \<open>The requests that the Web Audio API refuses with a \<^verbatim>\<open>RangeError\<close>: \<^verbatim>\<open>setValueAtTime\<close>,
  \<^verbatim>\<open>cancelScheduledValues\<close> and the two ramps throw on a negative time, and
  \<^verbatim>\<open>exponentialRampToValueAtTime\<close> also on the value \<open>0\<close>.\<close>

fun rangeError :: "event \<Rightarrow> bool" where
  "rangeError (FrequencySetValueAtTime f t) = (t < 0)"
| "rangeError (GainCancelScheduledValues t) = (t < 0)"
| "rangeError (GainSetValueAtTime v t) = (t < 0)"
| "rangeError (GainLinearRampToValueAtTime v t) = (t < 0)"
| "rangeError (GainExponentialRampToValueAtTime v t) = (t < 0 \<or> v = 0)"
| "rangeError ev = False"

subsection \<open>Scheduling\<close>

definition tick :: "real \<Rightarrow> MetronomeCore \<Rightarrow> MetronomeCore" where
  "tick time s =
     (let s1 = (if pulse s \<ge> meter s then s\<lparr> pulse := 1 \<rparr> else s\<lparr> pulse := pulse s + 1 \<rparr>);
          s2 = playTick time s1;
          isAccented = nullish (js_index (accents s2) (pulse s2 - 1)) False;
          s3 = emit (map (\<lambda>callback. TickCall callback (pulse s2) isAccented time) (tickCallbacks s2)) s2
      in notifyStateChange s3)"

definition calculateInterval :: "MetronomeCore \<Rightarrow> real" where
  "calculateInterval s = 60 / bpm s"

text \<open>The body of the \<^verbatim>\<open>while\<close> loop of \<^verbatim>\<open>scheduleLoop\<close>.\<close>

definition scheduleBody :: "MetronomeCore \<Rightarrow> MetronomeCore" where
  "scheduleBody s =
     (let tickTime = nextTickTime s;
          s1 = tick tickTime s;
          interval = calculateInterval s1
      in s1\<lparr> nextTickTime := nextTickTime s1 + interval, lastTickTime := tickTime \<rparr>)"

text \<open>The \<^verbatim>\<open>while\<close> loop itself. It need not end: \<open>None\<close> is a loop that runs forever.\<close>

partial_function (option) scheduleWhile :: "real \<Rightarrow> MetronomeCore \<Rightarrow> MetronomeCore option" where
  "scheduleWhile currentTime s =
     (if nextTickTime s < currentTime + scheduleAheadTime s
      then scheduleWhile currentTime (scheduleBody s)
      else Some s)"

declare scheduleWhile.simps [code]

text \<open>The timer handle is modelled by the delay the timer was armed with.\<close>

definition scheduleLoop :: "real \<Rightarrow> MetronomeCore \<Rightarrow> MetronomeCore option" where
  "scheduleLoop currentTime s =
     (if \<not> isPlaying s \<or> \<not> audioContext s then Some s
      else case scheduleWhile currentTime s of
             None \<Rightarrow> None
           | Some s1 \<Rightarrow>
               (let nextCheckTime = max 0 (lookahead s1 - (currentTime - lastTickTime s1) * 1000)
                in Some (s1\<lparr> scheduleIntervalId := Some nextCheckTime \<rparr>)))"

subsection \<open>Playback control\<close>

definition start :: "real \<Rightarrow> MetronomeCore \<Rightarrow> MetronomeCore option" where
  "start currentTime s =
     (if isPlaying s then Some s
      else let s1 = initAudioContext s;
               s2 = s1\<lparr> isPlaying := True, pulse := 0, nextTickTime := currentTime + timeOffset s1 \<rparr>
           in map_option notifyStateChange (scheduleLoop currentTime s2))"

definition stop :: "real \<Rightarrow> MetronomeCore \<Rightarrow> MetronomeCore" where
  "stop currentTime s =
     (if \<not> isPlaying s then s
      else let s1 = s\<lparr> isPlaying := False, pulse := 0 \<rparr>;
               s2 = (if audioContext s1 then s1\<lparr> timeOffset := nextTickTime s1 - currentTime \<rparr> else s1);
               s3 = (if scheduleIntervalId s2 \<noteq> None then s2\<lparr> scheduleIntervalId := None \<rparr> else s2)
           in notifyStateChange (cleanupAudioNodes s3))"

definition toggle :: "real \<Rightarrow> MetronomeCore \<Rightarrow> MetronomeCore option" where
  "toggle currentTime s = (if isPlaying s then Some (stop currentTime s) else start currentTime s)"

definition handle :: "real option \<Rightarrow> real \<Rightarrow> MetronomeCore \<Rightarrow> MetronomeCore option" where
  "handle newBpm currentTime s =
     toggle currentTime
       (case newBpm of
          Some v \<Rightarrow> s\<lparr> bpm := max (minBpm s) (min (maxBpm s) v) \<rparr>
        | None \<Rightarrow> s)"

subsection \<open>Observers\<close>

text \<open>\<^verbatim>\<open>onStateChange\<close> and \<^verbatim>\<open>onTick\<close> push the callback and return a closure; the closures
  are \<open>unsubscribeStateChange\<close> and \<open>unsubscribeTick\<close>.\<close>

definition onStateChange :: "callback \<Rightarrow> MetronomeCore \<Rightarrow> MetronomeCore" where
  "onStateChange callback s = s\<lparr> stateChangeCallbacks := stateChangeCallbacks s @ [callback] \<rparr>"

definition unsubscribeStateChange :: "callback \<Rightarrow> MetronomeCore \<Rightarrow> MetronomeCore" where
  "unsubscribeStateChange callback s =
     (let index = indexOf (stateChangeCallbacks s) callback
      in if index > -1 then s\<lparr> stateChangeCallbacks := splice1 (stateChangeCallbacks s) index \<rparr> else s)"

definition onTick :: "callback \<Rightarrow> MetronomeCore \<Rightarrow> MetronomeCore" where
  "onTick callback s = s\<lparr> tickCallbacks := tickCallbacks s @ [callback] \<rparr>"

definition unsubscribeTick :: "callback \<Rightarrow> MetronomeCore \<Rightarrow> MetronomeCore" where
  "unsubscribeTick callback s =
     (let index = indexOf (tickCallbacks s) callback
      in if index > -1 then s\<lparr> tickCallbacks := splice1 (tickCallbacks s) index \<rparr> else s)"

definition dispose :: "real \<Rightarrow> MetronomeCore \<Rightarrow> MetronomeCore" where
  "dispose currentTime s =
     (let s1 = stop currentTime s;
          s2 = s1\<lparr> stateChangeCallbacks := [], tickCallbacks := [] \<rparr>
      in if audioContext s2 then s2\<lparr> audioContext := False \<rparr> else s2)"


subsection \<open>Runs\<close>

text \<open>The timer firing again and again: \<^verbatim>\<open>scheduleLoop\<close> at successive readings of the clock,
  with nothing else happening in between.\<close>

fun polls :: "real list \<Rightarrow> MetronomeCore \<Rightarrow> MetronomeCore option" where
  "polls [] s = Some s"
| "polls (currentTime # ts) s =
     (case scheduleLoop currentTime s of None \<Rightarrow> None | Some s' \<Rightarrow> polls ts s')"

text \<open>Everything that can happen to a metronome: a call of its public interface (with the
  clock reading where the method reads the clock), or the armed timer firing.\<close>

datatype operation =
    SetBpm real
  | SetMeterProperty int
  | SetAccents "bool list"
  | IncreaseBpm real
  | DecreaseBpm real
  | SetMeter int "bool list option"
  | ToggleAccent int
  | SetAccent int bool
  | Start real
  | Stop real
  | Toggle real
  | Handle "real option" real
  | OnStateChange callback
  | UnsubscribeStateChange callback
  | OnTick callback
  | UnsubscribeTick callback
  | Dispose real
  | TimerFires real

fun perform :: "operation \<Rightarrow> MetronomeCore \<Rightarrow> MetronomeCore option" where
  "perform (SetBpm v) s = Some (set_bpm v s)"
| "perform (SetMeterProperty v) s = Some (state_of (set_meter v s))"
| "perform (SetAccents v) s = Some (set_accents v s)"
| "perform (IncreaseBpm amount) s = Some (increaseBpm amount s)"
| "perform (DecreaseBpm amount) s = Some (decreaseBpm amount s)"
| "perform (SetMeter m a) s = Some (state_of (setMeter m a s))"
| "perform (ToggleAccent beatIndex) s = Some (toggleAccent beatIndex s)"
| "perform (SetAccent beatIndex v) s = Some (setAccent beatIndex v s)"
| "perform (Start currentTime) s = start currentTime s"
| "perform (Stop currentTime) s = Some (stop currentTime s)"
| "perform (Toggle currentTime) s = toggle currentTime s"
| "perform (Handle newBpm currentTime) s = handle newBpm currentTime s"
| "perform (OnStateChange callback) s = Some (onStateChange callback s)"
| "perform (UnsubscribeStateChange callback) s = Some (unsubscribeStateChange callback s)"
| "perform (OnTick callback) s = Some (onTick callback s)"
| "perform (UnsubscribeTick callback) s = Some (unsubscribeTick callback s)"
| "perform (Dispose currentTime) s = Some (dispose currentTime s)"
| "perform (TimerFires currentTime) s =
     (if scheduleIntervalId s = None then Some s else scheduleLoop currentTime s)"

fun run :: "operation list \<Rightarrow> MetronomeCore \<Rightarrow> MetronomeCore option" where
  "run [] s = Some s"
| "run (op # ops) s = (case perform op s of None \<Rightarrow> None | Some s' \<Rightarrow> run ops s')"

subsection \<open>Reading the trace\<close>

text \<open>The ticks handed to the audio engine, in the order of submission: target time and
  frequency of each.\<close>

fun renders :: "event list \<Rightarrow> (real \<times> real) list" where
  "renders [] = []"
| "renders (FrequencySetValueAtTime f t # evs) = (t, f) # renders evs"
| "renders (ev # evs) = renders evs"

definition renderTimes :: "event list \<Rightarrow> real list" where
  "renderTimes evs = map fst (renders evs)"

text \<open>The calls an observer has received, with their arguments.\<close>

fun tickCalls :: "callback \<Rightarrow> event list \<Rightarrow> (int \<times> bool \<times> real) list" where
  "tickCalls cb [] = []"
| "tickCalls cb (TickCall c p a t # evs) = (if c = cb then (p, a, t) # tickCalls cb evs else tickCalls cb evs)"
| "tickCalls cb (ev # evs) = tickCalls cb evs"

fun stateCalls :: "callback \<Rightarrow> event list \<Rightarrow> MetronomeState list" where
  "stateCalls cb [] = []"
| "stateCalls cb (StateCall c st # evs) = (if c = cb then st # stateCalls cb evs else stateCalls cb evs)"
| "stateCalls cb (ev # evs) = stateCalls cb evs"

definition tickCallTimes :: "callback \<Rightarrow> event list \<Rightarrow> real list" where
  "tickCallTimes cb evs = map (\<lambda>(p, a, t). t) (tickCalls cb evs)"

subsection \<open>Vocabulary of the statements\<close>

text \<open>The tone generator and its gain control are created together and released together.\<close>

definition nodes_paired :: "MetronomeCore \<Rightarrow> bool" where
  "nodes_paired s = (gainNode s = oscillator s)"

text \<open>\<^verbatim>\<open>playTick\<close> reaches the audio engine: neither of its two early returns is taken.\<close>

definition rendering :: "MetronomeCore \<Rightarrow> bool" where
  "rendering s = (audioContext s \<and> (oscillator s \<longrightarrow> gainNode s))"

text \<open>The pulse a tick moves to, and the accent flag it reads there.\<close>

definition nextPulse :: "MetronomeCore \<Rightarrow> int" where
  "nextPulse s = (if pulse s \<ge> meter s then 1 else pulse s + 1)"

definition accentAt :: "MetronomeCore \<Rightarrow> bool" where
  "accentAt s = nullish (js_index (accents s) (nextPulse s - 1)) False"

text \<open>The requests one tick makes to the audio engine.\<close>

definition playEvents :: "real \<Rightarrow> real \<Rightarrow> event list" where
  "playEvents frequency time =
     [FrequencySetValueAtTime frequency time,
      GainCancelScheduledValues time,
      GainSetValueAtTime 0 time,
      GainLinearRampToValueAtTime (3 / 2) (time + 1 / 1000),
      GainExponentialRampToValueAtTime (1 / 100) (time + 1 / 1000 + 5 / 100),
      GainSetValueAtTime 0 (time + 1 / 1000 + 5 / 100 + 1 / 100)]"

text \<open>How many ticks are due in the window of a pass at clock time \<open>currentTime\<close>, for a
  positive tempo: the least \<open>k\<close> with
  \<open>currentTime + scheduleAheadTime \<le> nextTickTime + k * (60 / bpm)\<close>.\<close>

definition dueTicks :: "real \<Rightarrow> MetronomeCore \<Rightarrow> nat" where
  "dueTicks currentTime s =
     nat \<lceil>(currentTime + scheduleAheadTime s - nextTickTime s) / (60 / bpm s)\<rceil>"

text \<open>The target times of the ticks scheduled on the way from \<open>s\<close> to \<open>s'\<close>.\<close>

definition newTicks :: "MetronomeCore \<Rightarrow> MetronomeCore \<Rightarrow> real list" where
  "newTicks s s' = drop (length (renderTimes (trace s))) (renderTimes (trace s'))"

text \<open>The metronome that \<^verbatim>\<open>new MetronomeCore()\<close> builds, and the same metronome playing.\<close>

definition fresh :: MetronomeCore where
  "fresh = \<lparr> isPlaying = False, pulse = 0, meter = 4, bpm = 90,
       accents = [True, False, False, False],
       audioContext = False, oscillator = False, gainNode = False,
       nextTickTime = 0, lastTickTime = 0, timeOffset = 0, scheduleIntervalId = None,
       lookahead = 25, scheduleAheadTime = 1 / 10, minBpm = 30, maxBpm = 300,
       accentFrequency = 1200, normalFrequency = 800,
       stateChangeCallbacks = [], tickCallbacks = [], trace = [] \<rparr>"

definition playing :: MetronomeCore where
  "playing = fresh\<lparr> isPlaying := True, audioContext := True \<rparr>"

text \<open>A metronome playing in four, on its third beat, whose meter has then been set to two
  (\<^verbatim>\<open>setMeter(2)\<close> does not touch the pulse).\<close>

definition shrunk :: MetronomeCore where
  "shrunk = playing\<lparr> pulse := 3, meter := 2, accents := [True, False] \<rparr>"

text \<open>A playing metronome with one tick observer and an empty accents array
  (\<^verbatim>\<open>metronome.accents = []\<close>).\<close>

definition bare :: MetronomeCore where
  "bare = playing\<lparr> accents := [], tickCallbacks := [7] \<rparr>"

text \<open>Between \<open>s\<close> and \<open>s'\<close> the callback has not been called as a tick observer (as a
  state-change observer), and in \<open>s'\<close> it is not registered as one.\<close>

definition tick_silent :: "callback \<Rightarrow> MetronomeCore \<Rightarrow> MetronomeCore \<Rightarrow> bool" where
  "tick_silent cb s s' =
     (cb \<notin> set (tickCallbacks s') \<and> tickCalls cb (trace s') = tickCalls cb (trace s))"

definition state_silent :: "callback \<Rightarrow> MetronomeCore \<Rightarrow> MetronomeCore \<Rightarrow> bool" where
  "state_silent cb s s' =
     (cb \<notin> set (stateChangeCallbacks s') \<and> stateCalls cb (trace s') = stateCalls cb (trace s))"

text \<open>An operation that supplies an accents array supplies one of the length of the meter
  it is for, and a meter whose default accents are to be built is a length an array can
  have.\<close>

fun fits :: "operation \<Rightarrow> MetronomeCore \<Rightarrow> bool" where
  "fits (SetAccents v) s = (int (length v) = meter s)"
| "fits (SetMeter m (Some a)) s = (m < 1 \<or> int (length a) = m)"
| "fits (SetMeter m None) s = (m \<le> 4294967295)"
| "fits (SetMeterProperty v) s = (v \<le> 4294967295)"
| "fits op s = True"

fun fitting :: "operation list \<Rightarrow> MetronomeCore \<Rightarrow> bool" where
  "fitting [] s = True"
| "fitting (op # ops) s =
     (fits op s \<and> (case perform op s of None \<Rightarrow> True | Some s' \<Rightarrow> fitting ops s'))"

text \<open>A metronome with two tick observers and two state-change observers.\<close>

definition observed :: MetronomeCore where
  "observed = onTick 8 (onTick 7 (onStateChange 8 (onStateChange 7 fresh)))"

text \<open>What holds of every metronome that has been constructed and used through its
  interface: the two audio nodes exist together, a stopped metronome has pulse \<open>0\<close>, a
  playing one has its audio context.\<close>

definition settled :: "MetronomeCore \<Rightarrow> bool" where
  "settled s =
     (nodes_paired s \<and> (\<not> isPlaying s \<longrightarrow> pulse s = 0) \<and> (isPlaying s \<longrightarrow> audioContext s))"

section \<open>Properties\<close>

subsection \<open>Trace readers\<close>

lemma renders_append: "renders (xs @ ys) = renders xs @ renders ys"
  by (induction xs rule: renders.induct) simp_all


lemma tickCalls_append: "tickCalls cb (xs @ ys) = tickCalls cb xs @ tickCalls cb ys"
  by (induction cb xs rule: tickCalls.induct) simp_all

lemma stateCalls_append: "stateCalls cb (xs @ ys) = stateCalls cb xs @ stateCalls cb ys"
  by (induction cb xs rule: stateCalls.induct) simp_all

lemma renders_map_TickCall: "renders (map (\<lambda>c. TickCall c p a t) cs) = []"
  by (induction cs) simp_all

lemma renders_map_StateCall: "renders (map (\<lambda>c. StateCall c st) cs) = []"
  by (induction cs) simp_all

lemma tickCalls_map_StateCall: "tickCalls cb (map (\<lambda>c. StateCall c st) cs) = []"
  by (induction cs) simp_all

lemma stateCalls_map_TickCall: "stateCalls cb (map (\<lambda>c. TickCall c p a t) cs) = []"
  by (induction cs) simp_all

lemma tickCalls_map_TickCall:
  "tickCalls cb (map (\<lambda>c. TickCall c p a t) cs) = replicate (count_list cs cb) (p, a, t)"
  by (induction cs) simp_all

lemma stateCalls_map_StateCall:
  "stateCalls cb (map (\<lambda>c. StateCall c st) cs) = replicate (count_list cs cb) st"
  by (induction cs) simp_all

lemma renders_playEvents: "renders (playEvents f t) = [(t, f)]"
  by (simp add: playEvents_def)

lemma tickCalls_playEvents: "tickCalls cb (playEvents f t) = []"
  by (simp add: playEvents_def)

lemma stateCalls_playEvents: "stateCalls cb (playEvents f t) = []"
  by (simp add: playEvents_def)

lemmas reader_simps = renders_append tickCalls_append stateCalls_append
  renders_map_TickCall renders_map_StateCall tickCalls_map_StateCall stateCalls_map_TickCall
  tickCalls_map_TickCall stateCalls_map_StateCall
  renders_playEvents tickCalls_playEvents stateCalls_playEvents

subsection \<open>One tick\<close>

lemma notifyStateChange_eq:
  "notifyStateChange s = s\<lparr> trace := trace s @ map (\<lambda>c. StateCall c (state s)) (stateChangeCallbacks s) \<rparr>"
  by (simp add: notifyStateChange_def emit_def Let_def)

lemma tick_eq:
  "tick time s = s\<lparr> pulse := nextPulse s,
     oscillator := oscillator s \<or> audioContext s,
     gainNode := (if audioContext s \<and> \<not> oscillator s then True else gainNode s),
     trace := trace s @
       (if rendering s
        then playEvents (if accentAt s then accentFrequency s else normalFrequency s) time
        else []) @
       map (\<lambda>c. TickCall c (nextPulse s) (accentAt s) time) (tickCallbacks s) @
       map (\<lambda>c. StateCall c ((state s)\<lparr> pulse := nextPulse s \<rparr>)) (stateChangeCallbacks s) \<rparr>"
  by (simp add: tick_def playTick_def createOscillator_def notifyStateChange_eq emit_def
        Let_def nextPulse_def accentAt_def rendering_def state_def playEvents_def)


lemma tick_frame:
  "audioContext (tick t s) = audioContext s" "bpm (tick t s) = bpm s"
  "nextTickTime (tick t s) = nextTickTime s" "lastTickTime (tick t s) = lastTickTime s"
  "scheduleAheadTime (tick t s) = scheduleAheadTime s"
  "tickCallbacks (tick t s) = tickCallbacks s"
  "stateChangeCallbacks (tick t s) = stateChangeCallbacks s"
  "meter (tick t s) = meter s" "accents (tick t s) = accents s"
  "isPlaying (tick t s) = isPlaying s" "lookahead (tick t s) = lookahead s"
  "timeOffset (tick t s) = timeOffset s"
  "minBpm (tick t s) = minBpm s" "maxBpm (tick t s) = maxBpm s"
  "accentFrequency (tick t s) = accentFrequency s"
  "normalFrequency (tick t s) = normalFrequency s"
  "scheduleIntervalId (tick t s) = scheduleIntervalId s"
  "pulse (tick t s) = nextPulse s"
  by (simp_all add: tick_eq)

lemma tick_nodes_paired: "nodes_paired s \<Longrightarrow> nodes_paired (tick t s)"
  by (auto simp add: tick_eq nodes_paired_def)

lemma tick_renders:
  "renders (trace (tick t s)) = renders (trace s) @
     (if rendering s then [(t, if accentAt s then accentFrequency s else normalFrequency s)] else [])"
  by (simp add: tick_eq reader_simps)

lemma tick_tickCalls:
  "tickCalls cb (trace (tick t s)) = tickCalls cb (trace s) @
     replicate (count_list (tickCallbacks s) cb) (nextPulse s, accentAt s, t)"
  by (simp add: tick_eq reader_simps)

lemma tick_stateCalls:
  "stateCalls cb (trace (tick t s)) = stateCalls cb (trace s) @
     replicate (count_list (stateChangeCallbacks s) cb) ((state s)\<lparr> pulse := nextPulse s \<rparr>)"
  by (simp add: tick_eq reader_simps)

subsection \<open>One iteration of the scheduling loop\<close>

lemma scheduleBody_eq:
  "scheduleBody s = (tick (nextTickTime s) s)
           \<lparr> nextTickTime := nextTickTime s + 60 / bpm s, lastTickTime := nextTickTime s \<rparr>"
  by (simp add: scheduleBody_def calculateInterval_def Let_def tick_frame)

lemma scheduleBody_frame:
  "audioContext (scheduleBody s) = audioContext s"
  "bpm (scheduleBody s) = bpm s" "scheduleAheadTime (scheduleBody s) = scheduleAheadTime s"
  "tickCallbacks (scheduleBody s) = tickCallbacks s"
  "stateChangeCallbacks (scheduleBody s) = stateChangeCallbacks s"
  "meter (scheduleBody s) = meter s" "accents (scheduleBody s) = accents s"
  "isPlaying (scheduleBody s) = isPlaying s" "lookahead (scheduleBody s) = lookahead s"
  "timeOffset (scheduleBody s) = timeOffset s"
  "minBpm (scheduleBody s) = minBpm s" "maxBpm (scheduleBody s) = maxBpm s"
  "accentFrequency (scheduleBody s) = accentFrequency s"
  "normalFrequency (scheduleBody s) = normalFrequency s"
  "scheduleIntervalId (scheduleBody s) = scheduleIntervalId s"
  by (simp_all add: scheduleBody_eq tick_frame)

lemma scheduleBody_time:
  "nextTickTime (scheduleBody s) = nextTickTime s + 60 / bpm s"
  "lastTickTime (scheduleBody s) = nextTickTime s"
  "pulse (scheduleBody s) = nextPulse s"
  by (simp_all add: scheduleBody_eq tick_frame)

lemma scheduleBody_nodes_paired: "nodes_paired s \<Longrightarrow> nodes_paired (scheduleBody s)"
  using tick_nodes_paired [of s "nextTickTime s"] by (simp add: scheduleBody_eq nodes_paired_def)

lemma scheduleBody_renders:
  "renders (trace (scheduleBody s)) = renders (trace s) @
     (if rendering s
      then [(nextTickTime s, if accentAt s then accentFrequency s else normalFrequency s)]
      else [])"
  by (simp add: scheduleBody_eq tick_renders)

lemma scheduleBody_tickCalls:
  "tickCalls cb (trace (scheduleBody s)) = tickCalls cb (trace s) @
     replicate (count_list (tickCallbacks s) cb) (nextPulse s, accentAt s, nextTickTime s)"
  by (simp add: scheduleBody_eq tick_tickCalls)

lemma scheduleBody_stateCalls:
  "stateCalls cb (trace (scheduleBody s)) = stateCalls cb (trace s) @
     replicate (count_list (stateChangeCallbacks s) cb) ((state s)\<lparr> pulse := nextPulse s \<rparr>)"
  by (simp add: scheduleBody_eq tick_stateCalls)

lemma rendering_paired: "nodes_paired s \<Longrightarrow> rendering s = audioContext s"
  by (auto simp add: rendering_def nodes_paired_def)

subsection \<open>Several iterations\<close>

lemma iter_frame:
  "audioContext ((scheduleBody ^^ k) s) = audioContext s \<and>
    bpm ((scheduleBody ^^ k) s) = bpm s \<and>
    scheduleAheadTime ((scheduleBody ^^ k) s) = scheduleAheadTime s \<and>
    tickCallbacks ((scheduleBody ^^ k) s) = tickCallbacks s \<and>
    stateChangeCallbacks ((scheduleBody ^^ k) s) = stateChangeCallbacks s \<and>
    meter ((scheduleBody ^^ k) s) = meter s \<and> accents ((scheduleBody ^^ k) s) = accents s \<and>
    isPlaying ((scheduleBody ^^ k) s) = isPlaying s \<and>
    lookahead ((scheduleBody ^^ k) s) = lookahead s \<and>
    timeOffset ((scheduleBody ^^ k) s) = timeOffset s \<and>
    minBpm ((scheduleBody ^^ k) s) = minBpm s \<and> maxBpm ((scheduleBody ^^ k) s) = maxBpm s \<and>
    accentFrequency ((scheduleBody ^^ k) s) = accentFrequency s \<and>
    normalFrequency ((scheduleBody ^^ k) s) = normalFrequency s \<and>
    scheduleIntervalId ((scheduleBody ^^ k) s) = scheduleIntervalId s"
  by (induction k) (simp_all add: scheduleBody_frame)

lemma iter_nodes_paired: "nodes_paired s \<Longrightarrow> nodes_paired ((scheduleBody ^^ k) s)"
  by (induction k) (simp_all add: scheduleBody_nodes_paired)

lemma iter_nextTickTime:
  "nextTickTime ((scheduleBody ^^ k) s) = nextTickTime s + real k * (60 / bpm s)"
proof (induction k)
  case 0
  show ?case by simp
next
  case (Suc k)
  have "nextTickTime ((scheduleBody ^^ Suc k) s)
      = nextTickTime ((scheduleBody ^^ k) s) + 60 / bpm ((scheduleBody ^^ k) s)"
    by (simp add: scheduleBody_time)
  also have "\<dots> = nextTickTime s + real k * (60 / bpm s) + 60 / bpm s"
    using Suc iter_frame [of k s] by simp
  finally show ?case by (simp add: algebra_simps add_divide_distrib)
qed

lemma iter_lastTickTime:
  "lastTickTime ((scheduleBody ^^ Suc k) s) = nextTickTime s + real k * (60 / bpm s)"
  by (simp add: scheduleBody_time iter_nextTickTime)

lemma iter_renderTimes:
  assumes "audioContext s" "nodes_paired s"
  shows "renderTimes (trace ((scheduleBody ^^ k) s)) =
    renderTimes (trace s) @ map (\<lambda>i. nextTickTime s + real i * (60 / bpm s)) [0..<k]"
proof (induction k)
  case 0
  show ?case by simp
next
  case (Suc k)
  have "rendering ((scheduleBody ^^ k) s)"
    using assms iter_frame [of k s] iter_nodes_paired [of s k] by (simp add: rendering_paired)
  then have "renderTimes (trace ((scheduleBody ^^ Suc k) s))
      = renderTimes (trace ((scheduleBody ^^ k) s)) @ [nextTickTime ((scheduleBody ^^ k) s)]"
    by (simp add: renderTimes_def scheduleBody_renders)
  then show ?case using Suc by (simp add: iter_nextTickTime)
qed

lemma iter_tickCallTimes:
  assumes "count_list (tickCallbacks s) cb = 1"
  shows "tickCallTimes cb (trace ((scheduleBody ^^ k) s)) =
    tickCallTimes cb (trace s) @ map (\<lambda>i. nextTickTime s + real i * (60 / bpm s)) [0..<k]"
proof (induction k)
  case 0
  show ?case by simp
next
  case (Suc k)
  have "tickCallTimes cb (trace ((scheduleBody ^^ Suc k) s))
      = tickCallTimes cb (trace ((scheduleBody ^^ k) s)) @ [nextTickTime ((scheduleBody ^^ k) s)]"
    using iter_frame [of k s] assms by (simp add: tickCallTimes_def scheduleBody_tickCalls)
  then show ?case using Suc by (simp add: iter_nextTickTime)
qed

subsection \<open>The loop\<close>

lemma scheduleWhile_funpow:
  assumes "\<And>i. i < k \<Longrightarrow> nextTickTime ((scheduleBody ^^ i) s)
              < currentTime + scheduleAheadTime ((scheduleBody ^^ i) s)"
    and "\<not> nextTickTime ((scheduleBody ^^ k) s)
              < currentTime + scheduleAheadTime ((scheduleBody ^^ k) s)"
  shows "scheduleWhile currentTime s = Some ((scheduleBody ^^ k) s)"
  using assms
proof (induction k arbitrary: s)
  case 0
  then show ?case by (subst scheduleWhile.simps) simp
next
  case (Suc k)
  have c: "nextTickTime s < currentTime + scheduleAheadTime s"
    using Suc.prems(1) [of 0] by simp
  have "scheduleWhile currentTime (scheduleBody s) = Some ((scheduleBody ^^ k) (scheduleBody s))"
  proof (rule Suc.IH)
    fix i assume "i < k"
    then show "nextTickTime ((scheduleBody ^^ i) (scheduleBody s))
        < currentTime + scheduleAheadTime ((scheduleBody ^^ i) (scheduleBody s))"
      using Suc.prems(1) [of "Suc i"] by (simp add: funpow_swap1)
  next
    show "\<not> nextTickTime ((scheduleBody ^^ k) (scheduleBody s))
        < currentTime + scheduleAheadTime ((scheduleBody ^^ k) (scheduleBody s))"
      using Suc.prems(2) by (simp add: funpow_swap1)
  qed
  then show ?case using c by (subst scheduleWhile.simps) (simp add: funpow_swap1)
qed

text \<open>Exactly \<open>k\<close> ticks are due when the \<open>k\<close>-th due time (counting from \<open>0\<close>) is the first one
  outside the window. For \<open>k > 0\<close> the two bounds force \<open>60 / bpm > 0\<close>.\<close>

lemma scheduleWhile_due:
  assumes "0 < bpm s"
    and "k = 0 \<or> nextTickTime s + real (k - 1) * (60 / bpm s) < currentTime + scheduleAheadTime s"
    and "currentTime + scheduleAheadTime s \<le> nextTickTime s + real k * (60 / bpm s)"
  shows "scheduleWhile currentTime s = Some ((scheduleBody ^^ k) s)"
proof (rule scheduleWhile_funpow)
  fix i assume i: "i < k"
  have iv: "0 < 60 / bpm s" using assms(1) by simp
  have "real i \<le> real (k - 1)" using i by simp
  then have "real i * (60 / bpm s) \<le> real (k - 1) * (60 / bpm s)"
    by (rule mult_right_mono) (rule less_imp_le [OF iv])
  then show "nextTickTime ((scheduleBody ^^ i) s)
      < currentTime + scheduleAheadTime ((scheduleBody ^^ i) s)"
    using assms(2) i iter_frame [of i s] by (simp add: iter_nextTickTime)
next
  show "\<not> nextTickTime ((scheduleBody ^^ k) s)
      < currentTime + scheduleAheadTime ((scheduleBody ^^ k) s)"
    using assms(3) iter_frame [of k s] by (simp add: iter_nextTickTime)
qed

lemma dueTicks_bounds:
  assumes "0 < bpm s"
  shows "dueTicks currentTime s = 0 \<or>
      nextTickTime s + real (dueTicks currentTime s - 1) * (60 / bpm s)
        < currentTime + scheduleAheadTime s"
    and "currentTime + scheduleAheadTime s
        \<le> nextTickTime s + real (dueTicks currentTime s) * (60 / bpm s)"
proof -
  define iv where "iv = 60 / bpm s"
  define x where "x = (currentTime + scheduleAheadTime s - nextTickTime s) / iv"
  have iv: "0 < iv" using assms by (simp add: iv_def)
  have k: "dueTicks currentTime s = nat \<lceil>x\<rceil>" by (simp add: dueTicks_def x_def iv_def)
  have xiv: "x * iv = currentTime + scheduleAheadTime s - nextTickTime s"
    using iv by (simp add: x_def)
  have "x \<le> real (nat \<lceil>x\<rceil>)" by linarith
  then have "x * iv \<le> real (nat \<lceil>x\<rceil>) * iv" using iv by (simp add: mult_right_mono)
  then show "currentTime + scheduleAheadTime s
        \<le> nextTickTime s + real (dueTicks currentTime s) * (60 / bpm s)"
    using xiv by (simp add: k iv_def [symmetric])
  show "dueTicks currentTime s = 0 \<or>
      nextTickTime s + real (dueTicks currentTime s - 1) * (60 / bpm s)
        < currentTime + scheduleAheadTime s"
  proof (cases "nat \<lceil>x\<rceil> = 0")
    case True
    then show ?thesis by (simp add: k)
  next
    case False
    then have "real (nat \<lceil>x\<rceil> - 1) < x" by linarith
    then have "real (nat \<lceil>x\<rceil> - 1) * iv < x * iv" using iv by (simp add: mult_strict_right_mono)
    then show ?thesis using xiv by (simp add: k iv_def [symmetric])
  qed
qed

lemma scheduleWhile_dueTicks:
  assumes "0 < bpm s"
  shows "scheduleWhile currentTime s = Some ((scheduleBody ^^ dueTicks currentTime s) s)"
  using scheduleWhile_due [OF assms dueTicks_bounds [OF assms]] .

text \<open>What a loop that ends has established: partial correctness of the loop.\<close>

lemma scheduleWhile_invariant:
  assumes r: "scheduleWhile currentTime s = Some s'"
    and i: "I s"
    and step: "\<And>x. I x \<Longrightarrow> nextTickTime x < currentTime + scheduleAheadTime x \<Longrightarrow> I (scheduleBody x)"
  shows "I s' \<and> \<not> nextTickTime s' < currentTime + scheduleAheadTime s'"
proof -
  have "currentTime = currentTime \<longrightarrow> I s \<longrightarrow>
      I s' \<and> \<not> nextTickTime s' < currentTime + scheduleAheadTime s'"
  proof (rule scheduleWhile.raw_induct
      [where P = "\<lambda>c x y. c = currentTime \<longrightarrow> I x \<longrightarrow> I y \<and> \<not> nextTickTime y < c + scheduleAheadTime y",
       OF _ r])
    fix f c x y
    assume ih: "\<And>a b z. f a b = Some z \<Longrightarrow>
        a = currentTime \<longrightarrow> I b \<longrightarrow> I z \<and> \<not> nextTickTime z < a + scheduleAheadTime z"
      and eq: "(if nextTickTime x < c + scheduleAheadTime x then f c (scheduleBody x) else Some x) = Some y"
    show "c = currentTime \<longrightarrow> I x \<longrightarrow> I y \<and> \<not> nextTickTime y < c + scheduleAheadTime y"
    proof (intro impI)
      assume c: "c = currentTime" and x: "I x"
      show "I y \<and> \<not> nextTickTime y < c + scheduleAheadTime y"
      proof (cases "nextTickTime x < c + scheduleAheadTime x")
        case True
        then have "f c (scheduleBody x) = Some y" using eq by simp
        moreover have "I (scheduleBody x)" using step x True c by simp
        ultimately show ?thesis using ih c by blast
      next
        case False
        then show ?thesis using eq x by simp
      qed
    qed
  qed
  then show ?thesis using i by simp
qed

lemma scheduleWhile_Some_funpow:
  assumes "scheduleWhile currentTime s = Some s'"
  shows "\<exists>k. s' = (scheduleBody ^^ k) s"
proof -
  have "(\<exists>k. s' = (scheduleBody ^^ k) s) \<and> \<not> nextTickTime s' < currentTime + scheduleAheadTime s'"
  proof (rule scheduleWhile_invariant [OF assms])
    show "\<exists>k. s = (scheduleBody ^^ k) s" by (rule exI [of _ 0]) simp
  next
    fix x assume "\<exists>k. x = (scheduleBody ^^ k) s"
    then obtain k where "x = (scheduleBody ^^ k) s" by blast
    then have "scheduleBody x = (scheduleBody ^^ Suc k) s" by simp
    then show "\<exists>k. scheduleBody x = (scheduleBody ^^ k) s" by blast
  qed
  then show ?thesis by simp
qed

text \<open>With a negative tempo the next tick time only moves back: a loop that is entered
  never leaves.\<close>

lemma scheduleWhile_diverges:
  assumes "bpm s < 0" "nextTickTime s < currentTime + scheduleAheadTime s"
  shows "scheduleWhile currentTime s = None"
proof (rule ccontr)
  assume "scheduleWhile currentTime s \<noteq> None"
  then obtain s' where r: "scheduleWhile currentTime s = Some s'" by blast
  have "(bpm s' < 0 \<and> nextTickTime s' < currentTime + scheduleAheadTime s') \<and>
      \<not> nextTickTime s' < currentTime + scheduleAheadTime s'"
  proof (rule scheduleWhile_invariant [OF r])
    show "bpm s < 0 \<and> nextTickTime s < currentTime + scheduleAheadTime s" using assms by simp
  next
    fix x :: MetronomeCore
    assume a: "bpm x < 0 \<and> nextTickTime x < currentTime + scheduleAheadTime x"
    then have "60 / bpm x < 0" by (simp add: divide_pos_neg)
    then have "nextTickTime x + 60 / bpm x < currentTime + scheduleAheadTime x"
      using a by linarith
    then show "bpm (scheduleBody x) < 0 \<and>
        nextTickTime (scheduleBody x) < currentTime + scheduleAheadTime (scheduleBody x)"
      using a by (simp add: scheduleBody_frame scheduleBody_time)
  qed
  then show False by simp
qed


lemma constructor_bpm:
  "constructor (emptyConfig\<lparr> cfg_bpm := Some b \<rparr>) = Inr (fresh\<lparr> bpm := b \<rparr>)"
  by (simp add: constructor_def emptyConfig_def fresh_def createDefaultAccents_def
      new_Array_fill_def Let_def eval_nat_numeral)

lemma start_diverges:
  assumes "bpm s < 0" "\<not> isPlaying s" "timeOffset s < scheduleAheadTime s"
  shows "start currentTime s = None"
proof -
  define s2 where "s2 = (initAudioContext s)
    \<lparr> isPlaying := True, pulse := 0, nextTickTime := currentTime + timeOffset (initAudioContext s) \<rparr>"
  have "bpm s2 < 0" "nextTickTime s2 < currentTime + scheduleAheadTime s2"
    "isPlaying s2" "audioContext s2" "timeOffset (initAudioContext s) = timeOffset s"
    using assms by (simp_all add: s2_def initAudioContext_def)
  then have "scheduleLoop currentTime s2 = None"
    by (simp add: scheduleLoop_def scheduleWhile_diverges)
  then show ?thesis using assms(2) by (simp add: start_def Let_def s2_def)
qed

subsection \<open>A pass, and a run of passes\<close>

lemma scheduleLoop_idle:
  "\<not> isPlaying s \<or> \<not> audioContext s \<Longrightarrow> scheduleLoop currentTime s = Some s"
  by (auto simp add: scheduleLoop_def)

lemma scheduleLoop_playing:
  assumes "isPlaying s" "audioContext s" "scheduleWhile currentTime s = Some s1"
  shows "scheduleLoop currentTime s = Some (s1\<lparr> scheduleIntervalId :=
           Some (max 0 (lookahead s1 - (currentTime - lastTickTime s1) * 1000)) \<rparr>)"
  using assms by (simp add: scheduleLoop_def Let_def)

lemma map_upt_shift:
  "map f [0..<a] @ map (\<lambda>i. f (a + i)) [0..<b] = map f [0..<a + b]"
  by (induction b) simp_all

lemma consecutive_differ:
  assumes "Suc i < k"
  shows "map (\<lambda>i. t + real i * d) [0..<k] ! Suc i - map (\<lambda>i. t + real i * d) [0..<k] ! i = d"
  using assms by (simp add: algebra_simps)

lemma increasing_times:
  assumes "0 < d"
  shows "sorted_wrt (<) (map (\<lambda>i. t + real i * d) [0..<k])"
  using assms by (simp add: sorted_wrt_iff_nth_less)

lemma scheduleLoop_pass:
  assumes "0 < bpm s" "nodes_paired s"
  shows "\<exists>s' k. scheduleLoop currentTime s = Some s' \<and> bpm s' = bpm s \<and> nodes_paired s' \<and>
      nextTickTime s' = nextTickTime s + real k * (60 / bpm s) \<and>
      renderTimes (trace s') = renderTimes (trace s) @
        map (\<lambda>i. nextTickTime s + real i * (60 / bpm s)) [0..<k]"
proof (cases "isPlaying s \<and> audioContext s")
  case False
  then have "scheduleLoop currentTime s = Some s" by (simp add: scheduleLoop_idle)
  then show ?thesis using assms(2) by (intro exI [of _ s] exI [of _ 0]) simp
next
  case True
  define k where "k = dueTicks currentTime s"
  define s1 where "s1 = (scheduleBody ^^ k) s"
  define s' where "s' = s1\<lparr> scheduleIntervalId :=
           Some (max 0 (lookahead s1 - (currentTime - lastTickTime s1) * 1000)) \<rparr>"
  have "scheduleWhile currentTime s = Some s1"
    using scheduleWhile_dueTicks [OF assms(1)] by (simp add: s1_def k_def)
  then have "scheduleLoop currentTime s = Some s'"
    using True by (simp add: scheduleLoop_playing s'_def)
  moreover have "bpm s' = bpm s" using iter_frame [of k s] by (simp add: s'_def s1_def)
  moreover have "nodes_paired s'"
    using iter_nodes_paired [OF assms(2), of k] by (simp add: s'_def s1_def nodes_paired_def)
  moreover have "nextTickTime s' = nextTickTime s + real k * (60 / bpm s)"
    by (simp add: s'_def s1_def iter_nextTickTime)
  moreover have "renderTimes (trace s') = renderTimes (trace s) @
        map (\<lambda>i. nextTickTime s + real i * (60 / bpm s)) [0..<k]"
    using True assms(2) by (simp add: s'_def s1_def iter_renderTimes)
  ultimately show ?thesis by blast
qed

lemma polls_run:
  assumes "0 < bpm s" "nodes_paired s"
  shows "\<exists>s' K. polls nows s = Some s' \<and>
      renderTimes (trace s') = renderTimes (trace s) @
        map (\<lambda>i. nextTickTime s + real i * (60 / bpm s)) [0..<K]"
  using assms
proof (induction nows arbitrary: s)
  case Nil
  show ?case by (intro exI [of _ s] exI [of _ 0]) simp
next
  case (Cons t nows)
  obtain s1 k where p: "scheduleLoop t s = Some s1" "bpm s1 = bpm s" "nodes_paired s1"
      "nextTickTime s1 = nextTickTime s + real k * (60 / bpm s)"
      "renderTimes (trace s1) = renderTimes (trace s) @
        map (\<lambda>i. nextTickTime s + real i * (60 / bpm s)) [0..<k]"
    using scheduleLoop_pass [OF Cons.prems, of t] by blast
  obtain s' K where q: "polls nows s1 = Some s'"
      "renderTimes (trace s') = renderTimes (trace s1) @
        map (\<lambda>i. nextTickTime s1 + real i * (60 / bpm s1)) [0..<K]"
    using Cons.IH [of s1] p(2,3) Cons.prems(1) by auto
  define f where "f = (\<lambda>i. nextTickTime s + real i * (60 / bpm s))"
  have e: "map (\<lambda>i. nextTickTime s1 + real i * (60 / bpm s1)) [0..<K] = map (\<lambda>i. f (k + i)) [0..<K]"
    using p(2,4) by (simp add: f_def algebra_simps add_divide_distrib)
  have "renderTimes (trace s') = renderTimes (trace s) @ (map f [0..<k] @ map (\<lambda>i. f (k + i)) [0..<K])"
    using q(2) p(5) e by (simp only: f_def append_assoc)
  also have "\<dots> = renderTimes (trace s) @ map f [0..<k + K]"
    by (simp only: map_upt_shift)
  finally have "renderTimes (trace s') = renderTimes (trace s) @
        map (\<lambda>i. nextTickTime s + real i * (60 / bpm s)) [0..<k + K]"
    by (simp only: f_def)
  then show ?case using p(1) q(1) by auto
qed

lemma set_bpm_eq:
  "set_bpm v s = s\<lparr> bpm := max (minBpm s) (min (maxBpm s) v),
     trace := trace s @ map (\<lambda>c. StateCall c ((state s)\<lparr> bpm := max (minBpm s) (min (maxBpm s) v) \<rparr>))
       (stateChangeCallbacks s) \<rparr>"
  by (simp add: set_bpm_def notifyStateChange_eq state_def)

lemma newTicks_eq:
  "renderTimes (trace s') = renderTimes (trace s) @ ts \<Longrightarrow> newTicks s s' = ts"
  by (simp add: newTicks_def)


subsection \<open>Stop and start\<close>

lemma cleanupAudioNodes_eq:
  "cleanupAudioNodes s = s\<lparr> oscillator := False, gainNode := False \<rparr>"
  by (cases "oscillator s"; cases "gainNode s") (simp_all add: cleanupAudioNodes_def Let_def)

lemma stop_eq:
  assumes "isPlaying s"
  shows "stop currentTime s = s\<lparr> isPlaying := False, pulse := 0,
     timeOffset := (if audioContext s then nextTickTime s - currentTime else timeOffset s),
     scheduleIntervalId := None, oscillator := False, gainNode := False,
     trace := trace s @ map (\<lambda>c. StateCall c ((state s)\<lparr> isPlaying := False, pulse := 0 \<rparr>))
       (stateChangeCallbacks s) \<rparr>"
  using assms
  by (cases "scheduleIntervalId s")
     (simp_all add: stop_def Let_def cleanupAudioNodes_eq notifyStateChange_eq state_def)

lemma stop_idle: "\<not> isPlaying s \<Longrightarrow> stop currentTime s = s"
  by (simp add: stop_def)

lemma start_eq:
  assumes "\<not> isPlaying s"
  shows "start currentTime s = map_option notifyStateChange
     (scheduleLoop currentTime
        (s\<lparr> audioContext := True, isPlaying := True, pulse := 0,
            nextTickTime := currentTime + timeOffset s \<rparr>))"
proof (cases "audioContext s")
  case True
  then have "s\<lparr> audioContext := True \<rparr> = s" by (cases s) simp
  then have e: "s\<lparr> audioContext := True, isPlaying := True, pulse := 0,
            nextTickTime := currentTime + timeOffset s \<rparr>
      = s\<lparr> isPlaying := True, pulse := 0, nextTickTime := currentTime + timeOffset s \<rparr>"
    by (simp only:)
  have "start currentTime s = map_option notifyStateChange
     (scheduleLoop currentTime
        (s\<lparr> isPlaying := True, pulse := 0, nextTickTime := currentTime + timeOffset s \<rparr>))"
    using assms True by (simp add: start_def initAudioContext_def Let_def)
  then show ?thesis by (simp only: e)
next
  case False
  then show ?thesis using assms by (simp add: start_def initAudioContext_def Let_def)
qed

subsection \<open>The pulse\<close>

lemma mod_step:
  assumes "0 < (m :: int)"
  shows "(a + 1) mod m = (if a mod m + 1 = m then 0 else a mod m + 1)"
proof -
  have r: "0 \<le> a mod m" "a mod m < m" using assms by simp_all
  have "(a + 1) mod m = (a mod m + 1) mod m" by (simp add: mod_add_left_eq)
  then show ?thesis using r by (auto simp add: mod_pos_pos_trivial)
qed

lemma pulse_cycle:
  assumes "1 \<le> meter s" "0 \<le> pulse s"
  shows "pulse ((scheduleBody ^^ Suc n) s)
     = ((if pulse s \<le> meter s then pulse s else 0) + int n) mod meter s + 1"
proof (induction n)
  case 0
  show ?case
  proof (cases "pulse s < meter s")
    case True
    then show ?thesis using assms by (simp add: scheduleBody_time nextPulse_def mod_pos_pos_trivial)
  next
    case False
    then show ?thesis using assms by (auto simp add: scheduleBody_time nextPulse_def)
  qed
next
  case (Suc n)
  define c where "c = (if pulse s \<le> meter s then pulse s else 0) + int n"
  have m: "0 < meter s" using assms(1) by simp
  have q: "pulse ((scheduleBody ^^ Suc n) s) = c mod meter s + 1"
    using Suc by (simp add: c_def)
  have "c mod meter s < meter s" using m by simp
  then have "pulse ((scheduleBody ^^ Suc (Suc n)) s)
      = (if c mod meter s + 1 = meter s then 1 else c mod meter s + 1 + 1)"
    using q iter_frame [of "Suc n" s]
    by (subst funpow.simps(2)) (auto simp add: scheduleBody_time nextPulse_def simp del: funpow.simps)
  also have "\<dots> = (c + 1) mod meter s + 1" by (simp add: mod_step [OF m])
  finally show ?case by (simp add: c_def algebra_simps)
qed

text \<open>The state \<open>shrunk\<close> stands for is reached through the public interface.\<close>

lemma shrunk_reachable:
  "\<exists>s. run [Start 0, TimerFires (6 / 10), TimerFires (13 / 10), SetMeter 2 None] fresh = Some s \<and>
     isPlaying s \<and> pulse s = pulse shrunk \<and> meter s = meter shrunk \<and> accents s = accents shrunk"
  by (simp add: shrunk_def playing_def fresh_def start_def initAudioContext_def scheduleLoop_def
      scheduleWhile.simps scheduleBody_eq tick_eq notifyStateChange_eq setMeter_def
      createDefaultAccents_def new_Array_fill_def Let_def nextPulse_def rendering_def
      accentAt_def js_index_def state_def playEvents_def eval_nat_numeral)

subsection \<open>The tempo\<close>

lemma set_bpm_clamped:
  assumes "minBpm s \<le> maxBpm s"
  shows "minBpm (set_bpm v s) \<le> bpm (set_bpm v s) \<and> bpm (set_bpm v s) \<le> maxBpm (set_bpm v s)"
  using assms by (simp add: set_bpm_eq)

lemma set_bpm_examples:
  "bpm (set_bpm 20 fresh) = 30" "bpm (set_bpm 400 fresh) = 300" "bpm (set_bpm 150 fresh) = 150"
  by (simp_all add: set_bpm_eq fresh_def)

lemma increaseBpm_examples:
  "bpm (increaseBpm 10 (set_bpm 100 fresh)) = 110"
  "bpm (decreaseBpm 20 (increaseBpm 10 (set_bpm 100 fresh))) = 90"
  by (simp_all add: increaseBpm_def decreaseBpm_def set_bpm_eq fresh_def)

subsection \<open>Operations, one by one\<close>

lemma indexOf_found: "indexOf xs x > -1 \<longleftrightarrow> x \<in> set xs"
  by (induction xs) (auto simp add: Let_def)

lemma indexOf_nonneg: "x \<in> set xs \<Longrightarrow> 0 \<le> indexOf xs x"
  using indexOf_found [of xs x] by simp

lemma splice1_indexOf: "x \<in> set xs \<Longrightarrow> splice1 xs (indexOf xs x) = remove1 x xs"
proof (induction xs)
  case Nil
  then show ?case by simp
next
  case (Cons y ys)
  show ?case
  proof (cases "y = x")
    case True
    then show ?thesis by (simp add: splice1_def)
  next
    case False
    then have m: "x \<in> set ys" using Cons.prems by simp
    then have i: "0 \<le> indexOf ys x" by (rule indexOf_nonneg)
    then have "nat (indexOf ys x + 1) = Suc (nat (indexOf ys x))" by simp
    then show ?thesis
      using False i Cons.IH [OF m] indexOf_found [of ys x] m
      by (simp add: splice1_def Let_def)
  qed
qed

lemma unsubscribeTick_eq:
  "unsubscribeTick cb s = s\<lparr> tickCallbacks := remove1 cb (tickCallbacks s) \<rparr>"
proof (cases "cb \<in> set (tickCallbacks s)")
  case True
  then show ?thesis
    using indexOf_found [of "tickCallbacks s" cb]
    by (simp add: unsubscribeTick_def Let_def splice1_indexOf)
next
  case False
  then have "remove1 cb (tickCallbacks s) = tickCallbacks s" by (simp add: remove1_idem)
  then show ?thesis
    using False indexOf_found [of "tickCallbacks s" cb]
    by (simp add: unsubscribeTick_def Let_def)
qed

lemma unsubscribeStateChange_eq:
  "unsubscribeStateChange cb s = s\<lparr> stateChangeCallbacks := remove1 cb (stateChangeCallbacks s) \<rparr>"
proof (cases "cb \<in> set (stateChangeCallbacks s)")
  case True
  then show ?thesis
    using indexOf_found [of "stateChangeCallbacks s" cb]
    by (simp add: unsubscribeStateChange_def Let_def splice1_indexOf)
next
  case False
  then have "remove1 cb (stateChangeCallbacks s) = stateChangeCallbacks s" by (simp add: remove1_idem)
  then show ?thesis
    using False indexOf_found [of "stateChangeCallbacks s" cb]
    by (simp add: unsubscribeStateChange_def Let_def)
qed

lemma count_list_remove1:
  "count_list (remove1 x xs) y = (if x = y then count_list xs y - 1 else count_list xs y)"
  by (induction xs) auto

lemma set_accents_eq:
  "set_accents v s = s\<lparr> accents := v,
     trace := trace s @ map (\<lambda>c. StateCall c ((state s)\<lparr> accents := v \<rparr>)) (stateChangeCallbacks s) \<rparr>"
  by (simp add: set_accents_def notifyStateChange_eq state_def)

lemma createDefaultAccents_ok:
  assumes "0 \<le> m" "m \<le> 4294967295"
  shows "\<exists>a. createDefaultAccents m = Inr a \<and> int (length a) = m"
  using assms by (simp add: createDefaultAccents_def new_Array_fill_def)

lemma setMeter_cases:
  "setMeter m a s = Returned s \<and> m < 1 \<or>
   (\<exists>e. setMeter m a s = Threw e (s\<lparr> meter := m \<rparr>) \<and> 1 \<le> m \<and> a = None \<and> 4294967295 < m) \<or>
   (\<exists>v. setMeter m a s = Returned (s\<lparr> meter := m, accents := v,
        trace := trace s @ map (\<lambda>c. StateCall c ((state s)\<lparr> meter := m, accents := v \<rparr>))
          (stateChangeCallbacks s) \<rparr>) \<and> 1 \<le> m \<and>
      (case a of Some a' \<Rightarrow> v = a' | None \<Rightarrow> int (length v) = m \<and> m \<le> 4294967295))"
proof (cases "m < 1")
  case True
  then show ?thesis by (simp add: setMeter_def)
next
  case False
  show ?thesis
  proof (cases a)
    case (Some a')
    then show ?thesis using False
      by (simp add: setMeter_def Let_def notifyStateChange_eq state_def)
  next
    case None
    show ?thesis
    proof (cases "m \<le> 4294967295")
      case True
      then obtain v where "createDefaultAccents m = Inr v" "int (length v) = m"
        using False createDefaultAccents_ok [of m] by auto
      then show ?thesis using False None True
        by (auto simp add: setMeter_def Let_def notifyStateChange_eq state_def intro!: exI [of _ v])
    next
      case False2: False
      then show ?thesis using False None
        by (simp add: setMeter_def Let_def createDefaultAccents_def new_Array_fill_def)
    qed
  qed
qed

lemma set_meter_setMeter: "set_meter v s = setMeter v None s"
  by (simp add: set_meter_def setMeter_def)

lemma toggleAccent_eq:
  "toggleAccent i s = s \<or>
   toggleAccent i s = s\<lparr> accents := (accents s)[nat i := \<not> accents s ! nat i],
     trace := trace s @ map (\<lambda>c. StateCall c
        ((state s)\<lparr> accents := (accents s)[nat i := \<not> accents s ! nat i] \<rparr>)) (stateChangeCallbacks s) \<rparr>"
  by (simp add: toggleAccent_def notifyStateChange_eq state_def)

lemma setAccent_eq:
  "setAccent i v s = s \<or>
   setAccent i v s = s\<lparr> accents := (accents s)[nat i := v],
     trace := trace s @ map (\<lambda>c. StateCall c
        ((state s)\<lparr> accents := (accents s)[nat i := v] \<rparr>)) (stateChangeCallbacks s) \<rparr>"
  by (simp add: setAccent_def notifyStateChange_eq state_def)

lemma scheduleLoop_Some:
  assumes "scheduleLoop t s = Some s'"
  shows "\<exists>k x. s' = ((scheduleBody ^^ k) s)\<lparr> scheduleIntervalId := x \<rparr>"
proof (cases "isPlaying s \<and> audioContext s")
  case False
  then have "s' = s" using assms by (auto simp add: scheduleLoop_def)
  then have "s' = ((scheduleBody ^^ 0) s)\<lparr> scheduleIntervalId := scheduleIntervalId s \<rparr>" by simp
  then show ?thesis by blast
next
  case True
  then obtain s1 where 1: "scheduleWhile t s = Some s1"
    and 2: "s' = s1\<lparr> scheduleIntervalId := Some (max 0 (lookahead s1 - (t - lastTickTime s1) * 1000)) \<rparr>"
    using assms by (auto simp add: scheduleLoop_def Let_def split: option.splits)
  obtain k where "s1 = (scheduleBody ^^ k) s" using scheduleWhile_Some_funpow [OF 1] by blast
  then show ?thesis using 2 by blast
qed

lemma start_Some:
  assumes "start t s = Some s'"
  shows "s' = s \<or> (\<exists>k x. s' = notifyStateChange
     (((scheduleBody ^^ k) (s\<lparr> audioContext := True, isPlaying := True, pulse := 0,
            nextTickTime := t + timeOffset s \<rparr>))\<lparr> scheduleIntervalId := x \<rparr>))"
proof (cases "isPlaying s")
  case True
  then show ?thesis using assms by (simp add: start_def)
next
  case False
  then obtain s3 where 1: "scheduleLoop t (s\<lparr> audioContext := True, isPlaying := True, pulse := 0,
            nextTickTime := t + timeOffset s \<rparr>) = Some s3" and 2: "s' = notifyStateChange s3"
    using assms by (auto simp add: start_eq)
  show ?thesis using scheduleLoop_Some [OF 1] 2 by blast
qed

lemma stop_cases:
  "stop t s = s \<or> stop t s = s\<lparr> isPlaying := False, pulse := 0,
     timeOffset := (if audioContext s then nextTickTime s - t else timeOffset s),
     scheduleIntervalId := None, oscillator := False, gainNode := False,
     trace := trace s @ map (\<lambda>c. StateCall c ((state s)\<lparr> isPlaying := False, pulse := 0 \<rparr>))
       (stateChangeCallbacks s) \<rparr>"
  by (cases "isPlaying s") (simp_all add: stop_eq stop_idle)

lemma dispose_eq:
  "dispose t s = (stop t s)\<lparr> stateChangeCallbacks := [], tickCallbacks := [], audioContext := False \<rparr>"
  by (cases "audioContext (stop t s)") (simp_all add: dispose_def Let_def)

subsection \<open>Observers that are not registered are not called\<close>

lemma iter_tickCalls_absent:
  assumes "cb \<notin> set (tickCallbacks s)"
  shows "tickCalls cb (trace ((scheduleBody ^^ k) s)) = tickCalls cb (trace s)"
proof (induction k)
  case 0
  show ?case by simp
next
  case (Suc k)
  then show ?case using assms iter_frame [of k s] by (simp add: scheduleBody_tickCalls)
qed

lemma iter_stateCalls_absent:
  assumes "cb \<notin> set (stateChangeCallbacks s)"
  shows "stateCalls cb (trace ((scheduleBody ^^ k) s)) = stateCalls cb (trace s)"
proof (induction k)
  case 0
  show ?case by simp
next
  case (Suc k)
  then show ?case using assms iter_frame [of k s] by (simp add: scheduleBody_stateCalls)
qed

lemma tick_silent_scheduleLoop:
  assumes "cb \<notin> set (tickCallbacks s)" "scheduleLoop t s = Some s'"
  shows "tick_silent cb s s'"
proof -
  obtain k x where "s' = ((scheduleBody ^^ k) s)\<lparr> scheduleIntervalId := x \<rparr>"
    using scheduleLoop_Some [OF assms(2)] by blast
  then show ?thesis
    using assms(1) iter_frame [of k s] by (simp add: tick_silent_def iter_tickCalls_absent)
qed

lemma state_silent_scheduleLoop:
  assumes "cb \<notin> set (stateChangeCallbacks s)" "scheduleLoop t s = Some s'"
  shows "state_silent cb s s'"
proof -
  obtain k x where "s' = ((scheduleBody ^^ k) s)\<lparr> scheduleIntervalId := x \<rparr>"
    using scheduleLoop_Some [OF assms(2)] by blast
  then show ?thesis
    using assms(1) iter_frame [of k s] by (simp add: state_silent_def iter_stateCalls_absent)
qed

lemma tick_silent_stop:
  assumes "cb \<notin> set (tickCallbacks s)"
  shows "tick_silent cb s (stop t s)"
  using assms stop_cases [of t s] by (auto simp add: tick_silent_def reader_simps)

lemma state_silent_stop:
  assumes "cb \<notin> set (stateChangeCallbacks s)"
  shows "state_silent cb s (stop t s)"
  using assms stop_cases [of t s] by (auto simp add: state_silent_def reader_simps)

lemma tick_silent_start:
  assumes "cb \<notin> set (tickCallbacks s)" "start t s = Some s'"
  shows "tick_silent cb s s'"
proof -
  define s2 where "s2 = s\<lparr> audioContext := True, isPlaying := True, pulse := 0,
            nextTickTime := t + timeOffset s \<rparr>"
  have a: "cb \<notin> set (tickCallbacks s2)" "trace s2 = trace s" using assms(1) by (simp_all add: s2_def)
  consider "s' = s"
    | k x where "s' = notifyStateChange (((scheduleBody ^^ k) s2)\<lparr> scheduleIntervalId := x \<rparr>)"
    using start_Some [OF assms(2)] unfolding s2_def by blast
  then show ?thesis
  proof cases
    case 1
    then show ?thesis using assms(1) by (simp add: tick_silent_def)
  next
    case 2
    then show ?thesis
      using a iter_frame [of k s2] iter_tickCalls_absent [OF a(1), of k]
      by (simp add: tick_silent_def notifyStateChange_eq reader_simps)
  qed
qed

lemma state_silent_start:
  assumes "cb \<notin> set (stateChangeCallbacks s)" "start t s = Some s'"
  shows "state_silent cb s s'"
proof -
  define s2 where "s2 = s\<lparr> audioContext := True, isPlaying := True, pulse := 0,
            nextTickTime := t + timeOffset s \<rparr>"
  have a: "cb \<notin> set (stateChangeCallbacks s2)" "trace s2 = trace s"
    using assms(1) by (simp_all add: s2_def)
  consider "s' = s"
    | k x where "s' = notifyStateChange (((scheduleBody ^^ k) s2)\<lparr> scheduleIntervalId := x \<rparr>)"
    using start_Some [OF assms(2)] unfolding s2_def by blast
  then show ?thesis
  proof cases
    case 1
    then show ?thesis using assms(1) by (simp add: state_silent_def)
  next
    case 2
    then show ?thesis
      using a iter_frame [of k s2] iter_stateCalls_absent [OF a(1), of k]
      by (simp add: state_silent_def notifyStateChange_eq reader_simps)
  qed
qed

lemma tick_silent_perform:
  assumes "cb \<notin> set (tickCallbacks s)" "op \<noteq> OnTick cb" "perform op s = Some s'"
  shows "tick_silent cb s s'"
proof (cases op)
  case (SetBpm v)
  then show ?thesis using assms by (auto simp add: tick_silent_def set_bpm_eq reader_simps)
next
  case (SetMeterProperty v)
  then show ?thesis using assms setMeter_cases [of v None s]
    by (auto simp add: tick_silent_def set_meter_setMeter reader_simps)
next
  case (SetAccents v)
  then show ?thesis using assms by (auto simp add: tick_silent_def set_accents_eq reader_simps)
next
  case (IncreaseBpm v)
  then show ?thesis using assms
    by (auto simp add: tick_silent_def increaseBpm_def set_bpm_eq reader_simps)
next
  case (DecreaseBpm v)
  then show ?thesis using assms
    by (auto simp add: tick_silent_def decreaseBpm_def set_bpm_eq reader_simps)
next
  case (SetMeter m a)
  then show ?thesis using assms setMeter_cases [of m a s]
    by (auto simp add: tick_silent_def reader_simps)
next
  case (ToggleAccent i)
  then show ?thesis using assms toggleAccent_eq [of i s]
    by (auto simp add: tick_silent_def reader_simps)
next
  case (SetAccent i v)
  then show ?thesis using assms setAccent_eq [of i v s]
    by (auto simp add: tick_silent_def reader_simps)
next
  case (Start t)
  then show ?thesis using assms tick_silent_start [of cb s t s'] by simp
next
  case (Stop t)
  then show ?thesis using assms tick_silent_stop [of cb s t] by auto
next
  case (Toggle t)
  then show ?thesis
    using assms tick_silent_start [of cb s t s'] tick_silent_stop [of cb s t]
    by (auto simp add: toggle_def split: if_splits)
next
  case (Handle b t)
  define s0 where "s0 = (case b of Some v \<Rightarrow> s\<lparr> bpm := max (minBpm s) (min (maxBpm s) v) \<rparr> | None \<Rightarrow> s)"
  have a: "cb \<notin> set (tickCallbacks s0)" "trace s0 = trace s"
    using assms(1) by (simp_all add: s0_def split: option.splits)
  have "toggle t s0 = Some s'" using assms(3) Handle by (simp add: handle_def s0_def)
  then have "tick_silent cb s0 s'"
    using a(1) tick_silent_start [of cb s0 t s'] tick_silent_stop [of cb s0 t]
    by (auto simp add: toggle_def split: if_splits)
  then show ?thesis using a(2) by (simp add: tick_silent_def)
next
  case (OnStateChange c)
  then show ?thesis using assms by (auto simp add: tick_silent_def onStateChange_def)
next
  case (UnsubscribeStateChange c)
  then show ?thesis using assms by (auto simp add: tick_silent_def unsubscribeStateChange_eq)
next
  case (OnTick c)
  then show ?thesis using assms by (auto simp add: tick_silent_def onTick_def)
next
  case (UnsubscribeTick c)
  then show ?thesis using assms by (auto simp add: tick_silent_def unsubscribeTick_eq)
next
  case (Dispose t)
  then show ?thesis using assms tick_silent_stop [of cb s t]
    by (auto simp add: tick_silent_def dispose_eq)
next
  case (TimerFires t)
  then show ?thesis using assms tick_silent_scheduleLoop [of cb s t s']
    by (auto simp add: tick_silent_def split: if_splits)
qed

lemma state_silent_perform:
  assumes "cb \<notin> set (stateChangeCallbacks s)" "op \<noteq> OnStateChange cb" "perform op s = Some s'"
  shows "state_silent cb s s'"
proof (cases op)
  case (SetBpm v)
  then show ?thesis using assms by (auto simp add: state_silent_def set_bpm_eq reader_simps)
next
  case (SetMeterProperty v)
  then show ?thesis using assms setMeter_cases [of v None s]
    by (auto simp add: state_silent_def set_meter_setMeter reader_simps)
next
  case (SetAccents v)
  then show ?thesis using assms by (auto simp add: state_silent_def set_accents_eq reader_simps)
next
  case (IncreaseBpm v)
  then show ?thesis using assms
    by (auto simp add: state_silent_def increaseBpm_def set_bpm_eq reader_simps)
next
  case (DecreaseBpm v)
  then show ?thesis using assms
    by (auto simp add: state_silent_def decreaseBpm_def set_bpm_eq reader_simps)
next
  case (SetMeter m a)
  then show ?thesis using assms setMeter_cases [of m a s]
    by (auto simp add: state_silent_def reader_simps)
next
  case (ToggleAccent i)
  then show ?thesis using assms toggleAccent_eq [of i s]
    by (auto simp add: state_silent_def reader_simps)
next
  case (SetAccent i v)
  then show ?thesis using assms setAccent_eq [of i v s]
    by (auto simp add: state_silent_def reader_simps)
next
  case (Start t)
  then show ?thesis using assms state_silent_start [of cb s t s'] by simp
next
  case (Stop t)
  then show ?thesis using assms state_silent_stop [of cb s t] by auto
next
  case (Toggle t)
  then show ?thesis
    using assms state_silent_start [of cb s t s'] state_silent_stop [of cb s t]
    by (auto simp add: toggle_def split: if_splits)
next
  case (Handle b t)
  define s0 where "s0 = (case b of Some v \<Rightarrow> s\<lparr> bpm := max (minBpm s) (min (maxBpm s) v) \<rparr> | None \<Rightarrow> s)"
  have a: "cb \<notin> set (stateChangeCallbacks s0)" "trace s0 = trace s"
    using assms(1) by (simp_all add: s0_def split: option.splits)
  have "toggle t s0 = Some s'" using assms(3) Handle by (simp add: handle_def s0_def)
  then have "state_silent cb s0 s'"
    using a(1) state_silent_start [of cb s0 t s'] state_silent_stop [of cb s0 t]
    by (auto simp add: toggle_def split: if_splits)
  then show ?thesis using a(2) by (simp add: state_silent_def)
next
  case (OnStateChange c)
  then show ?thesis using assms by (auto simp add: state_silent_def onStateChange_def)
next
  case (UnsubscribeStateChange c)
  then show ?thesis using assms by (auto simp add: state_silent_def unsubscribeStateChange_eq)
next
  case (OnTick c)
  then show ?thesis using assms by (auto simp add: state_silent_def onTick_def)
next
  case (UnsubscribeTick c)
  then show ?thesis using assms by (auto simp add: state_silent_def unsubscribeTick_eq)
next
  case (Dispose t)
  then show ?thesis using assms state_silent_stop [of cb s t]
    by (auto simp add: state_silent_def dispose_eq)
next
  case (TimerFires t)
  then show ?thesis using assms state_silent_scheduleLoop [of cb s t s']
    by (auto simp add: state_silent_def split: if_splits)
qed

lemma tick_silent_run:
  assumes "cb \<notin> set (tickCallbacks s)" "OnTick cb \<notin> set ops" "run ops s = Some s'"
  shows "tick_silent cb s s'"
  using assms
proof (induction ops arbitrary: s)
  case Nil
  then show ?case by (simp add: tick_silent_def)
next
  case (Cons op ops)
  then obtain s1 where 1: "perform op s = Some s1" and 2: "run ops s1 = Some s'"
    by (auto split: option.splits)
  have a: "tick_silent cb s s1"
    using tick_silent_perform [of cb s op s1] Cons.prems(1,2) 1 by auto
  then have "tick_silent cb s1 s'"
    using Cons.IH [of s1] Cons.prems(2) 2 by (simp add: tick_silent_def)
  then show ?case using a by (simp add: tick_silent_def)
qed

lemma state_silent_run:
  assumes "cb \<notin> set (stateChangeCallbacks s)" "OnStateChange cb \<notin> set ops" "run ops s = Some s'"
  shows "state_silent cb s s'"
  using assms
proof (induction ops arbitrary: s)
  case Nil
  then show ?case by (simp add: state_silent_def)
next
  case (Cons op ops)
  then obtain s1 where 1: "perform op s = Some s1" and 2: "run ops s1 = Some s'"
    by (auto split: option.splits)
  have a: "state_silent cb s s1"
    using state_silent_perform [of cb s op s1] Cons.prems(1,2) 1 by auto
  then have "state_silent cb s1 s'"
    using Cons.IH [of s1] Cons.prems(2) 2 by (simp add: state_silent_def)
  then show ?case using a by (simp add: state_silent_def)
qed

subsection \<open>Meter and accents\<close>

lemma beats_scheduleLoop:
  assumes "scheduleLoop t s = Some s'"
  shows "meter s' = meter s \<and> accents s' = accents s"
proof -
  obtain k x where "s' = ((scheduleBody ^^ k) s)\<lparr> scheduleIntervalId := x \<rparr>"
    using scheduleLoop_Some [OF assms] by blast
  then show ?thesis using iter_frame [of k s] by simp
qed

lemma beats_start:
  assumes "start t s = Some s'"
  shows "meter s' = meter s \<and> accents s' = accents s"
proof -
  define s2 where "s2 = s\<lparr> audioContext := True, isPlaying := True, pulse := 0,
            nextTickTime := t + timeOffset s \<rparr>"
  consider "s' = s"
    | k x where "s' = notifyStateChange (((scheduleBody ^^ k) s2)\<lparr> scheduleIntervalId := x \<rparr>)"
    using start_Some [OF assms] unfolding s2_def by blast
  then show ?thesis
  proof cases
    case 1
    then show ?thesis by simp
  next
    case 2
    then show ?thesis using iter_frame [of k s2] by (simp add: notifyStateChange_eq s2_def)
  qed
qed

lemma beats_stop: "meter (stop t s) = meter s \<and> accents (stop t s) = accents s"
  using stop_cases [of t s] by auto

lemma fits_perform:
  assumes "int (length (accents s)) = meter s" "fits op s" "perform op s = Some s'"
  shows "int (length (accents s')) = meter s'"
proof (cases op)
  case (SetBpm v)
  then show ?thesis using assms by (auto simp add: set_bpm_eq)
next
  case (SetMeterProperty v)
  then show ?thesis using assms setMeter_cases [of v None s]
    by (auto simp add: set_meter_setMeter)
next
  case (SetAccents v)
  then show ?thesis using assms by (auto simp add: set_accents_eq)
next
  case (IncreaseBpm v)
  then show ?thesis using assms by (auto simp add: increaseBpm_def set_bpm_eq)
next
  case (DecreaseBpm v)
  then show ?thesis using assms by (auto simp add: decreaseBpm_def set_bpm_eq)
next
  case (SetMeter m a)
  then show ?thesis using assms setMeter_cases [of m a s]
    by (cases a) auto
next
  case (ToggleAccent i)
  then show ?thesis using assms toggleAccent_eq [of i s] by auto
next
  case (SetAccent i v)
  then show ?thesis using assms setAccent_eq [of i v s] by auto
next
  case (Start t)
  then show ?thesis using assms beats_start [of t s s'] by simp
next
  case (Stop t)
  then show ?thesis using assms beats_stop [of t s] by auto
next
  case (Toggle t)
  then show ?thesis using assms beats_start [of t s s'] beats_stop [of t s]
    by (auto simp add: toggle_def split: if_splits)
next
  case (Handle b t)
  define s0 where "s0 = (case b of Some v \<Rightarrow> s\<lparr> bpm := max (minBpm s) (min (maxBpm s) v) \<rparr> | None \<Rightarrow> s)"
  have a: "meter s0 = meter s" "accents s0 = accents s"
    by (simp_all add: s0_def split: option.splits)
  have "toggle t s0 = Some s'" using assms(3) Handle by (simp add: handle_def s0_def)
  then have "meter s' = meter s0 \<and> accents s' = accents s0"
    using beats_start [of t s0 s'] beats_stop [of t s0]
    by (auto simp add: toggle_def split: if_splits)
  then show ?thesis using a assms(1) by simp
next
  case (OnStateChange c)
  then show ?thesis using assms by (auto simp add: onStateChange_def)
next
  case (UnsubscribeStateChange c)
  then show ?thesis using assms by (auto simp add: unsubscribeStateChange_eq)
next
  case (OnTick c)
  then show ?thesis using assms by (auto simp add: onTick_def)
next
  case (UnsubscribeTick c)
  then show ?thesis using assms by (auto simp add: unsubscribeTick_eq)
next
  case (Dispose t)
  then show ?thesis using assms beats_stop [of t s] by (auto simp add: dispose_eq)
next
  case (TimerFires t)
  then show ?thesis using assms beats_scheduleLoop [of t s s'] by (auto split: if_splits)
qed

lemma fitting_run:
  assumes "int (length (accents s)) = meter s" "fitting ops s" "run ops s = Some s'"
  shows "int (length (accents s')) = meter s'"
  using assms
proof (induction ops arbitrary: s)
  case Nil
  then show ?case by simp
next
  case (Cons op ops)
  then obtain s1 where 1: "perform op s = Some s1" and 2: "run ops s1 = Some s'"
    by (auto split: option.splits)
  have "int (length (accents s1)) = meter s1"
    using fits_perform [of s op s1] Cons.prems(1,2) 1 by simp
  then show ?case using Cons.IH [of s1] Cons.prems(2) 1 2 by simp
qed

lemma constructor_default_accents:
  assumes "cfg_accents c = None" "constructor c = Inr s0"
  shows "int (length (accents s0)) = meter s0"
  using assms
  by (auto simp add: constructor_def Let_def createDefaultAccents_def new_Array_fill_def
      split: sum.splits if_splits)

lemma constructor_given_accents:
  assumes "cfg_accents c = Some a" "constructor c = Inr s0"
  shows "accents s0 = a \<and> meter s0 = nullish (cfg_meter c) 4"
  using assms by (auto simp add: constructor_def Let_def)

lemma default_accents:
  assumes "1 \<le> m" "m \<le> 4294967295"
  shows "createDefaultAccents m = Inr (True # replicate (nat m - 1) False)"
proof -
  obtain n where "nat m = Suc n" using assms(1) by (cases "nat m") simp_all
  then show ?thesis using assms
    by (simp add: createDefaultAccents_def new_Array_fill_def)
qed

lemma constructor_empty: "constructor emptyConfig = Inr fresh"
  by (simp add: constructor_def emptyConfig_def fresh_def createDefaultAccents_def
      new_Array_fill_def Let_def eval_nat_numeral)

subsection \<open>States a metronome can be in\<close>

lemma settled_frame:
  assumes "settled s" "oscillator s' = oscillator s" "gainNode s' = gainNode s"
    "isPlaying s' = isPlaying s" "pulse s' = pulse s" "audioContext s' = audioContext s"
  shows "settled s'"
  using assms by (simp add: settled_def nodes_paired_def)

lemma settled_iter:
  assumes "settled s" "isPlaying s"
  shows "settled ((scheduleBody ^^ k) s)"
  using assms iter_frame [of k s] iter_nodes_paired [of s k] by (simp add: settled_def)

lemma settled_scheduleLoop:
  assumes "settled s" "scheduleLoop t s = Some s'"
  shows "settled s'"
proof (cases "isPlaying s \<and> audioContext s")
  case False
  then show ?thesis using assms by (auto simp add: scheduleLoop_def)
next
  case True
  obtain k x where "s' = ((scheduleBody ^^ k) s)\<lparr> scheduleIntervalId := x \<rparr>"
    using scheduleLoop_Some [OF assms(2)] by blast
  then show ?thesis
    using settled_iter [OF assms(1), of k] True by (simp add: settled_def nodes_paired_def)
qed

lemma settled_start:
  assumes "settled s" "start t s = Some s'"
  shows "settled s'"
proof -
  define s2 where "s2 = s\<lparr> audioContext := True, isPlaying := True, pulse := 0,
            nextTickTime := t + timeOffset s \<rparr>"
  have a: "settled s2" "isPlaying s2" using assms(1) by (simp_all add: s2_def settled_def nodes_paired_def)
  consider "s' = s"
    | k x where "s' = notifyStateChange (((scheduleBody ^^ k) s2)\<lparr> scheduleIntervalId := x \<rparr>)"
    using start_Some [OF assms(2)] unfolding s2_def by blast
  then show ?thesis
  proof cases
    case 1
    then show ?thesis using assms(1) by simp
  next
    case 2
    then show ?thesis
      using settled_iter [OF a, of k]
      by (simp add: settled_def nodes_paired_def notifyStateChange_eq)
  qed
qed

lemma settled_stop: "settled s \<Longrightarrow> settled (stop t s)"
  by (cases "isPlaying s") (simp_all add: stop_eq stop_idle settled_def nodes_paired_def)

lemma isPlaying_stop: "\<not> isPlaying (stop t s)"
  by (cases "isPlaying s") (simp_all add: stop_eq stop_idle)

lemma settled_perform:
  assumes "settled s" "perform op s = Some s'"
  shows "settled s'"
proof (cases op)
  case (SetBpm v)
  then show ?thesis using assms by (auto simp add: set_bpm_eq intro: settled_frame)
next
  case (SetMeterProperty v)
  then show ?thesis using assms setMeter_cases [of v None s]
    by (auto simp add: set_meter_setMeter intro: settled_frame)
next
  case (SetAccents v)
  then show ?thesis using assms by (auto simp add: set_accents_eq intro: settled_frame)
next
  case (IncreaseBpm v)
  then show ?thesis using assms by (auto simp add: increaseBpm_def set_bpm_eq intro: settled_frame)
next
  case (DecreaseBpm v)
  then show ?thesis using assms by (auto simp add: decreaseBpm_def set_bpm_eq intro: settled_frame)
next
  case (SetMeter m a)
  then show ?thesis using assms setMeter_cases [of m a s]
    by (auto intro: settled_frame)
next
  case (ToggleAccent i)
  then show ?thesis using assms toggleAccent_eq [of i s] by (auto intro: settled_frame)
next
  case (SetAccent i v)
  then show ?thesis using assms setAccent_eq [of i v s] by (auto intro: settled_frame)
next
  case (Start t)
  then show ?thesis using assms settled_start [of s t s'] by simp
next
  case (Stop t)
  then show ?thesis using assms settled_stop [of s t] by auto
next
  case (Toggle t)
  then show ?thesis using assms settled_start [of s t s'] settled_stop [of s t]
    by (auto simp add: toggle_def split: if_splits)
next
  case (Handle b t)
  define s0 where "s0 = (case b of Some v \<Rightarrow> s\<lparr> bpm := max (minBpm s) (min (maxBpm s) v) \<rparr> | None \<Rightarrow> s)"
  have "settled s0"
    using assms(1) by (auto simp add: s0_def split: option.splits intro: settled_frame)
  moreover have "toggle t s0 = Some s'" using assms(2) Handle by (simp add: handle_def s0_def)
  ultimately show ?thesis
    using settled_start [of s0 t s'] settled_stop [of s0 t]
    by (auto simp add: toggle_def split: if_splits)
next
  case (OnStateChange c)
  then show ?thesis using assms by (auto simp add: onStateChange_def intro: settled_frame)
next
  case (UnsubscribeStateChange c)
  then show ?thesis using assms by (auto simp add: unsubscribeStateChange_eq intro: settled_frame)
next
  case (OnTick c)
  then show ?thesis using assms by (auto simp add: onTick_def intro: settled_frame)
next
  case (UnsubscribeTick c)
  then show ?thesis using assms by (auto simp add: unsubscribeTick_eq intro: settled_frame)
next
  case (Dispose t)
  then show ?thesis using assms settled_stop [of s t] isPlaying_stop [of t s]
    by (auto simp add: dispose_eq settled_def nodes_paired_def)
next
  case (TimerFires t)
  then show ?thesis using assms settled_scheduleLoop [of s t s'] by (auto split: if_splits)
qed

lemma settled_run:
  assumes "settled s" "run ops s = Some s'"
  shows "settled s'"
  using assms
proof (induction ops arbitrary: s)
  case Nil
  then show ?case by simp
next
  case (Cons op ops)
  then obtain s1 where 1: "perform op s = Some s1" and 2: "run ops s1 = Some s'"
    by (auto split: option.splits)
  show ?case using Cons.IH [OF settled_perform [OF Cons.prems(1) 1] 2] .
qed

lemma settled_constructor:
  assumes "constructor c = Inr s"
  shows "settled s"
  using assms
  by (auto simp add: constructor_def Let_def settled_def nodes_paired_def split: sum.splits)

lemma stop_resets_pulse:
  assumes "constructor c = Inr s0" "run ops s0 = Some s"
  shows "pulse (stop t s) = 0"
proof -
  have "settled s" using settled_run [OF settled_constructor [OF assms(1)] assms(2)] .
  then show ?thesis
    by (cases "isPlaying s") (simp_all add: stop_eq stop_idle settled_def)
qed

section \<open>The claims\<close>

text \<open>
  C10. A single scheduling pass (one execution of the \<^verbatim>\<open>while\<close> loop of \<^verbatim>\<open>scheduleLoop\<close>) ends
  after finitely many ticks, at every clock time, provided the current bpm is strictly
  positive: the loop returns, and what it returns is the state after \<open>k\<close> iterations of its
  body for some \<open>k\<close>. Positivity is not established by construction: the constructor stores
  whatever bpm the configuration gives, and a metronome built with a negative bpm never
  comes back from its first \<^verbatim>\<open>start()\<close>.
\<close>

theorem scheduling_pass_terminates:
  "(0 < bpm s \<longrightarrow> (\<exists>s' k. scheduleWhile currentTime s = Some s' \<and> s' = (scheduleBody ^^ k) s)) \<and>
   (\<exists>s0. constructor (emptyConfig\<lparr> cfg_bpm := Some b \<rparr>) = Inr s0 \<and> bpm s0 = b \<and>
      (b < 0 \<longrightarrow> start t s0 = None))"
proof (intro conjI impI)
  assume "0 < bpm s"
  then show "\<exists>s' k. scheduleWhile currentTime s = Some s' \<and> s' = (scheduleBody ^^ k) s"
    using scheduleWhile_dueTicks [of s currentTime] by blast
next
  have "b < 0 \<longrightarrow> start t (fresh\<lparr> bpm := b \<rparr>) = None"
    using start_diverges [of "fresh\<lparr> bpm := b \<rparr>" t] by (simp add: fresh_def)
  then show "\<exists>s0. constructor (emptyConfig\<lparr> cfg_bpm := Some b \<rparr>) = Inr s0 \<and> bpm s0 = b \<and>
      (b < 0 \<longrightarrow> start t s0 = None)"
    by (simp add: constructor_bpm)
qed

theorem scheduling_pass_terminates_witness:
  "0 < bpm playing \<and> (\<exists>s' k. scheduleWhile 0 playing = Some s' \<and> s' = (scheduleBody ^^ k) playing) \<and>
   (-60 :: real) < 0 \<and>
   (\<exists>s0. constructor (emptyConfig\<lparr> cfg_bpm := Some (-60) \<rparr>) = Inr s0 \<and> bpm s0 = -60 \<and>
      start 0 s0 = None)"
  using scheduling_pass_terminates [of playing 0 "-60" 0]
  by (simp add: playing_def fresh_def)


text \<open>
  C3. Whenever \<open>k \<ge> 1\<close> ticks fall due inside the schedule-ahead window at the moment of a
  poll pass (the due time number \<open>k - 1\<close> is inside the window, the due time number \<open>k\<close> is
  the first one outside), that one pass hands exactly \<open>k\<close> ticks to the audio engine and
  notifies every tick observer exactly \<open>k\<close> times, with \<open>k\<close> strictly increasing, hence
  distinct, target times: no two due ticks are merged and none is skipped. This holds in
  every playing state, whether or not its bpm lies within \<open>[minBpm, maxBpm]\<close>; the two
  bounds on the due times force \<open>60 / bpm > 0\<close>.
\<close>

theorem pass_emits_every_due_tick:
  assumes "isPlaying s" "audioContext s" "nodes_paired s"
    and "1 \<le> k"
    and "nextTickTime s + real (k - 1) * (60 / bpm s) < currentTime + scheduleAheadTime s"
    and "currentTime + scheduleAheadTime s \<le> nextTickTime s + real k * (60 / bpm s)"
  shows "\<exists>s' ts. scheduleLoop currentTime s = Some s' \<and>
      renderTimes (trace s') = renderTimes (trace s) @ ts \<and>
      (\<forall>cb. count_list (tickCallbacks s) cb = 1 \<longrightarrow>
         tickCallTimes cb (trace s') = tickCallTimes cb (trace s) @ ts) \<and>
      ts = map (\<lambda>i. nextTickTime s + real i * (60 / bpm s)) [0..<k] \<and>
      length ts = k \<and> sorted_wrt (<) ts \<and> distinct ts"
proof -
  define d where "d = 60 / bpm s"
  have "real (k - 1) * d < real k * d" using assms(5,6) by (simp add: d_def)
  moreover have "real (k - 1) < real k" using assms(4) by simp
  ultimately have d: "0 < d"
    by (metis less_imp_le mult_right_mono_neg not_less)
  then have b: "0 < bpm s" by (simp add: d_def zero_less_divide_iff)
  define s1 where "s1 = (scheduleBody ^^ k) s"
  define s' where "s' = s1\<lparr> scheduleIntervalId :=
           Some (max 0 (lookahead s1 - (currentTime - lastTickTime s1) * 1000)) \<rparr>"
  define ts where "ts = map (\<lambda>i. nextTickTime s + real i * d) [0..<k]"
  have "scheduleWhile currentTime s = Some s1"
    unfolding s1_def using b assms(5,6) by (intro scheduleWhile_due) simp_all
  then have 1: "scheduleLoop currentTime s = Some s'"
    using assms(1,2) by (simp add: scheduleLoop_playing s'_def)
  have 2: "renderTimes (trace s') = renderTimes (trace s) @ ts"
    using assms(2,3) by (simp add: s'_def s1_def ts_def d_def iter_renderTimes)
  have 3: "\<forall>cb. count_list (tickCallbacks s) cb = 1 \<longrightarrow>
         tickCallTimes cb (trace s') = tickCallTimes cb (trace s) @ ts"
    by (simp add: s'_def s1_def ts_def d_def iter_tickCallTimes)
  have 4: "sorted_wrt (<) ts" unfolding ts_def using d by (rule increasing_times)
  then have 5: "distinct ts" by (simp add: strict_sorted_iff)
  have 6: "length ts = k" by (simp add: ts_def)
  show ?thesis
    using 1 2 3 4 5 6 unfolding ts_def d_def by blast
qed


theorem pass_emits_every_due_tick_witness:
  "isPlaying (onTick 7 playing) \<and> audioContext (onTick 7 playing) \<and>
   nodes_paired (onTick 7 playing) \<and> (1 :: nat) \<le> 3 \<and>
   nextTickTime (onTick 7 playing) + real (3 - 1) * (60 / bpm (onTick 7 playing))
     < 3 / 2 + scheduleAheadTime (onTick 7 playing) \<and>
   3 / 2 + scheduleAheadTime (onTick 7 playing)
     \<le> nextTickTime (onTick 7 playing) + real 3 * (60 / bpm (onTick 7 playing)) \<and>
   (\<exists>s'. scheduleLoop (3 / 2) (onTick 7 playing) = Some s' \<and>
      renderTimes (trace s') = [0, 2 / 3, 4 / 3] \<and>
      tickCallTimes 7 (trace s') = [0, 2 / 3, 4 / 3])"
proof -
  have h: "isPlaying (onTick 7 playing)" "audioContext (onTick 7 playing)"
    "nodes_paired (onTick 7 playing)" "(1 :: nat) \<le> 3"
    "nextTickTime (onTick 7 playing) + real (3 - 1) * (60 / bpm (onTick 7 playing))
       < 3 / 2 + scheduleAheadTime (onTick 7 playing)"
    "3 / 2 + scheduleAheadTime (onTick 7 playing)
       \<le> nextTickTime (onTick 7 playing) + real 3 * (60 / bpm (onTick 7 playing))"
    by (simp_all add: onTick_def playing_def fresh_def nodes_paired_def)
  have c: "count_list (tickCallbacks (onTick 7 playing)) 7 = 1"
    "renderTimes (trace (onTick 7 playing)) = []"
    "tickCallTimes 7 (trace (onTick 7 playing)) = []"
    "map (\<lambda>i. nextTickTime (onTick 7 playing) + real i * (60 / bpm (onTick 7 playing))) [0..<3]
       = [0, 2 / 3, 4 / 3]"
    by (simp_all add: onTick_def playing_def fresh_def renderTimes_def tickCallTimes_def
        upt_conv_Cons)
  show ?thesis
    using pass_emits_every_due_tick [OF h] h c by auto
qed

text \<open>
  C1. At fixed bpm, the target times of the ticks scheduled in a run of poll passes are
  \<open>nextTickTime + i * (60 / bpm)\<close> for \<open>i = 0, 1, \<dots>\<close>: every two consecutive ones differ by
  exactly \<open>60 / bpm\<close>. The interval added after a tick has been scheduled is computed from
  the bpm the metronome has once that tick has been handed over: an edit of the bpm leaves
  the ticks already scheduled and the target time of the tick being scheduled as they are,
  and moves only the tick after it.
\<close>

theorem interval_law:
  assumes "0 < bpm s" "nodes_paired s"
  shows "(\<exists>s' K. polls nows s = Some s' \<and>
       newTicks s s' = map (\<lambda>i. nextTickTime s + real i * (60 / bpm s)) [0..<K] \<and>
       (\<forall>i. Suc i < length (newTicks s s') \<longrightarrow>
          newTicks s s' ! Suc i - newTicks s s' ! i = 60 / bpm s)) \<and>
     nextTickTime (scheduleBody s) = nextTickTime s + 60 / bpm (tick (nextTickTime s) s) \<and>
     (bpm (set_bpm v s) \<noteq> 0 \<longrightarrow>
        renders (trace (set_bpm v s)) = renders (trace s) \<and>
        nextTickTime (set_bpm v s) = nextTickTime s \<and>
        (audioContext s \<longrightarrow> newTicks s (scheduleBody (set_bpm v s)) = [nextTickTime s]) \<and>
        nextTickTime (scheduleBody (set_bpm v s)) = nextTickTime s + 60 / bpm (set_bpm v s))"
proof (intro conjI impI)
  obtain s' K where p: "polls nows s = Some s'"
    "renderTimes (trace s') = renderTimes (trace s) @
        map (\<lambda>i. nextTickTime s + real i * (60 / bpm s)) [0..<K]"
    using polls_run [OF assms, of nows] by blast
  have n: "newTicks s s' = map (\<lambda>i. nextTickTime s + real i * (60 / bpm s)) [0..<K]"
    using p(2) by (rule newTicks_eq)
  have "\<forall>i. Suc i < length (newTicks s s') \<longrightarrow>
          newTicks s s' ! Suc i - newTicks s s' ! i = 60 / bpm s"
    unfolding n using consecutive_differ [of _ K "nextTickTime s" "60 / bpm s"] by simp
  then show "\<exists>s' K. polls nows s = Some s' \<and>
       newTicks s s' = map (\<lambda>i. nextTickTime s + real i * (60 / bpm s)) [0..<K] \<and>
       (\<forall>i. Suc i < length (newTicks s s') \<longrightarrow>
          newTicks s s' ! Suc i - newTicks s s' ! i = 60 / bpm s)"
    using p(1) n by blast
next
  show "nextTickTime (scheduleBody s) = nextTickTime s + 60 / bpm (tick (nextTickTime s) s)"
    by (simp add: scheduleBody_time tick_frame)
next
  show "renders (trace (set_bpm v s)) = renders (trace s)"
    by (simp add: set_bpm_eq reader_simps)
next
  show "nextTickTime (set_bpm v s) = nextTickTime s"
    by (simp add: set_bpm_eq)
next
  assume "audioContext s"
  then have "rendering (set_bpm v s)"
    using assms(2) by (simp add: set_bpm_eq rendering_def nodes_paired_def)
  then have "renderTimes (trace (scheduleBody (set_bpm v s))) = renderTimes (trace s) @ [nextTickTime s]"
    by (simp add: renderTimes_def scheduleBody_renders) (simp add: set_bpm_eq reader_simps)
  then show "newTicks s (scheduleBody (set_bpm v s)) = [nextTickTime s]"
    by (rule newTicks_eq)
next
  show "nextTickTime (scheduleBody (set_bpm v s)) = nextTickTime s + 60 / bpm (set_bpm v s)"
    by (simp add: scheduleBody_time) (simp add: set_bpm_eq)
qed

theorem interval_law_witness:
  "0 < bpm playing \<and> nodes_paired playing \<and> bpm (set_bpm 120 playing) \<noteq> 0 \<and>
   audioContext playing \<and>
   (\<exists>s' K. polls [0, 1] playing = Some s' \<and>
       newTicks playing s' = map (\<lambda>i. 0 + real i * (60 / 90)) [0..<K] \<and>
       (\<forall>i. Suc i < length (newTicks playing s') \<longrightarrow>
          newTicks playing s' ! Suc i - newTicks playing s' ! i = 60 / 90)) \<and>
   newTicks playing (scheduleBody (set_bpm 120 playing)) = [0] \<and>
   nextTickTime (scheduleBody (set_bpm 120 playing)) = 1 / 2"
proof -
  have h: "0 < bpm playing" "nodes_paired playing" "bpm (set_bpm 120 playing) \<noteq> 0"
    "audioContext playing"
    by (simp_all add: playing_def fresh_def nodes_paired_def set_bpm_eq)
  have c: "bpm playing = 90" "nextTickTime playing = 0" "bpm (set_bpm 120 playing) = 120"
    by (simp_all add: playing_def fresh_def set_bpm_eq)
  show ?thesis
    using interval_law [OF h(1,2), of "[0, 1]" 120] h c by simp
qed





text \<open>
  C4, as the code has it. Every tick advances the pulse by
  \<^verbatim>\<open>pulse = (pulse >= meter) ? 1 : pulse + 1\<close>. This is the rule with \<^verbatim>\<open>==\<close> whenever the pulse
  does not exceed the meter; where it does (the meter was lowered while playing), the next
  pulse is \<open>1\<close>. Hence, for a meter of at least one and any starting pulse from \<open>0\<close> on, the
  pulses of the following ticks run \<open>1, \<dots>, meter, 1, \<dots>, meter\<close> in a cycle, starting after
  the starting pulse, or at \<open>1\<close> if the starting pulse exceeded the meter. \<^verbatim>\<open>stop()\<close> leaves
  the pulse at \<open>0\<close>: it sets it to \<open>0\<close> on a playing metronome, and a stopped metronome
  that was constructed and used through its interface has pulse \<open>0\<close> already.
\<close>

theorem pulse_advance:
  "pulse (tick t s) = (if pulse s \<ge> meter s then 1 else pulse s + 1) \<and>
   (pulse s \<le> meter s \<longrightarrow> pulse (tick t s) = (if pulse s = meter s then 1 else pulse s + 1)) \<and>
   (1 \<le> meter s \<and> 0 \<le> pulse s \<longrightarrow>
      pulse ((scheduleBody ^^ Suc n) s)
        = ((if pulse s \<le> meter s then pulse s else 0) + int n) mod meter s + 1) \<and>
   (isPlaying s \<longrightarrow> pulse (stop currentTime s) = 0) \<and>
   (constructor c = Inr s0 \<and> run ops s0 = Some s \<longrightarrow> pulse (stop currentTime s) = 0)"
proof (intro conjI impI)
  show "pulse (tick t s) = (if pulse s \<ge> meter s then 1 else pulse s + 1)"
    by (simp add: tick_frame nextPulse_def)
next
  assume "pulse s \<le> meter s"
  then show "pulse (tick t s) = (if pulse s = meter s then 1 else pulse s + 1)"
    by (simp add: tick_frame nextPulse_def)
next
  assume "1 \<le> meter s \<and> 0 \<le> pulse s"
  then show "pulse ((scheduleBody ^^ Suc n) s)
        = ((if pulse s \<le> meter s then pulse s else 0) + int n) mod meter s + 1"
    using pulse_cycle [of s n] by blast
next
  assume "isPlaying s"
  then show "pulse (stop currentTime s) = 0" by (simp add: stop_eq)
next
  assume "constructor c = Inr s0 \<and> run ops s0 = Some s"
  then show "pulse (stop currentTime s) = 0" using stop_resets_pulse by blast
qed

theorem pulse_advance_witness:
  "pulse playing \<le> meter playing \<and> 1 \<le> meter playing \<and> 0 \<le> pulse playing \<and> isPlaying playing \<and>
   pulse (tick 0 playing) = 1 \<and> pulse ((scheduleBody ^^ Suc 5) playing) = 2 \<and>
   pulse (stop 1 playing) = 0 \<and>
   constructor emptyConfig = Inr fresh \<and>
   (\<exists>s. run [Start 0, TimerFires (6 / 10)] fresh = Some s \<and> pulse s = 2 \<and> pulse (stop 1 s) = 0)"
proof -
  have "\<exists>s. run [Start 0, TimerFires (6 / 10)] fresh = Some s \<and> pulse s = 2"
    by (simp add: fresh_def start_def initAudioContext_def scheduleLoop_def
      scheduleWhile.simps scheduleBody_eq tick_eq notifyStateChange_eq Let_def nextPulse_def
      rendering_def accentAt_def js_index_def state_def playEvents_def eval_nat_numeral)
  then obtain s where r: "run [Start 0, TimerFires (6 / 10)] fresh = Some s" "pulse s = 2"
    by blast
  have "pulse (stop 1 s) = 0"
    using pulse_advance [where s = s and c = emptyConfig and ?s0.0 = fresh
        and ops = "[Start 0, TimerFires (6 / 10)]" and currentTime = 1] r constructor_empty
    by simp
  moreover have "pulse playing \<le> meter playing \<and> 1 \<le> meter playing \<and> 0 \<le> pulse playing \<and>
      isPlaying playing \<and> pulse (tick 0 playing) = 1 \<and>
      pulse ((scheduleBody ^^ Suc 5) playing) = 2 \<and> pulse (stop 1 playing) = 0"
    using pulse_advance [where s = playing and t = 0 and n = 5 and currentTime = 1]
    by (simp add: playing_def fresh_def)
  ultimately show ?thesis using r constructor_empty by blast
qed

text \<open>
  C4 as stated fails where the pulse exceeds the meter: the rule
  \<^verbatim>\<open>pulse = (pulse == meter) ? 1 : pulse + 1\<close> would move from pulse \<open>3\<close> in meter \<open>2\<close> to \<open>4\<close>; the
  tick moves to \<open>1\<close>.
\<close>

theorem pulse_advance_counterexample:
  "pulse (tick 2 shrunk) = 1 \<and>
   (if pulse shrunk = meter shrunk then 1 else pulse shrunk + 1) = 4"
  by (simp add: tick_frame nextPulse_def shrunk_def playing_def fresh_def)


text \<open>
  The accent lookup \<^verbatim>\<open>this._accents[this._pulse - 1] ?? false\<close> has a value at every index:
  the element where the index is within the array, \<open>False\<close> everywhere else. When
  \<open>pulse - 1\<close> is out of the bounds of the array, the frequency handed to the audio engine
  is the normal one and every tick observer is called with \<open>isAccented = False\<close>.
\<close>

theorem accent_lookup_total:
  "nullish (js_index (accents s) i) False = (0 \<le> i \<and> i < int (length (accents s)) \<and> accents s ! nat i) \<and>
   (pulse (tick t s) - 1 < 0 \<or> int (length (accents s)) \<le> pulse (tick t s) - 1 \<longrightarrow>
      renders (trace (tick t s)) = renders (trace s) @ (if rendering s then [(t, normalFrequency s)] else []) \<and>
      tickCalls cb (trace (tick t s)) = tickCalls cb (trace s) @
        replicate (count_list (tickCallbacks s) cb) (pulse (tick t s), False, t))"
proof (intro conjI impI)
  show "nullish (js_index (accents s) i) False = (0 \<le> i \<and> i < int (length (accents s)) \<and> accents s ! nat i)"
    by (auto simp add: js_index_def)
next
  assume "pulse (tick t s) - 1 < 0 \<or> int (length (accents s)) \<le> pulse (tick t s) - 1"
  then have a: "\<not> accentAt s" by (auto simp add: tick_frame accentAt_def js_index_def)
  show "renders (trace (tick t s)) = renders (trace s) @ (if rendering s then [(t, normalFrequency s)] else [])"
    using a by (simp add: tick_renders)
  show "tickCalls cb (trace (tick t s)) = tickCalls cb (trace s) @
        replicate (count_list (tickCallbacks s) cb) (pulse (tick t s), False, t)"
    using a by (simp add: tick_tickCalls tick_frame)
qed

theorem accent_lookup_total_witness:
  "(pulse (tick 5 bare) - 1 < 0 \<or> int (length (accents bare)) \<le> pulse (tick 5 bare) - 1) \<and>
   rendering bare \<and>
   renders (trace (tick 5 bare)) = [(5, 800)] \<and>
   tickCalls 7 (trace (tick 5 bare)) = [(1, False, 5)]"
proof -
  have h: "pulse (tick 5 bare) - 1 < 0 \<or> int (length (accents bare)) \<le> pulse (tick 5 bare) - 1"
    by (simp add: tick_frame nextPulse_def bare_def playing_def fresh_def)
  have c: "rendering bare" "renders (trace bare) = []" "tickCalls 7 (trace bare) = []"
    "count_list (tickCallbacks bare) 7 = 1" "normalFrequency bare = 800" "pulse (tick 5 bare) = 1"
    by (simp_all add: tick_frame nextPulse_def rendering_def bare_def playing_def fresh_def)
  show ?thesis
    using accent_lookup_total [of bare 0 5 7] h c by simp
qed

text \<open>
  C7 fails on the code: the tick-scheduling path can throw. \<^verbatim>\<open>stop()\<close> saves
  \<open>timeOffset = nextTickTime - currentTime\<close>, which is negative when the poll loop has
  fallen behind; \<^verbatim>\<open>dispose()\<close> keeps it and drops the audio context, and the next \<^verbatim>\<open>start()\<close>
  adds it to the clock of a new context, which starts at \<open>0\<close>. The tick is then scheduled
  at a negative time, and \<^verbatim>\<open>playTick\<close> asks the audio engine for
  \<^verbatim>\<open>setValueAtTime(1200, -1/3)\<close>, which the engine refuses with a \<^verbatim>\<open>RangeError\<close>, thrown through
  \<^verbatim>\<open>tick\<close>, \<^verbatim>\<open>scheduleLoop\<close> and \<^verbatim>\<open>start\<close>.
\<close>

theorem tick_requests_negative_time:
  "map_option (\<lambda>s. filter rangeError (trace s))
     (run [Start 0, Stop 1, Dispose 1, Start 0] fresh)
   = Some [FrequencySetValueAtTime 1200 (- 1 / 3), GainCancelScheduledValues (- 1 / 3),
       GainSetValueAtTime 0 (- 1 / 3), GainLinearRampToValueAtTime (3 / 2) (- 997 / 3000),
       GainExponentialRampToValueAtTime (1 / 100) (- 847 / 3000),
       GainSetValueAtTime 0 (- 817 / 3000)]"
  by (simp add: fresh_def start_def stop_def dispose_def cleanupAudioNodes_def
      initAudioContext_def scheduleLoop_def scheduleWhile.simps scheduleBody_eq tick_eq
      notifyStateChange_eq Let_def nextPulse_def rendering_def accentAt_def js_index_def
      state_def playEvents_def eval_nat_numeral)

text \<open>
  C9. For every \<open>m < 1\<close> and every accents argument, given or not, \<^verbatim>\<open>setMeter(m, accents)\<close>
  and the \<^verbatim>\<open>meter\<close> setter return normally and leave the metronome exactly as it was: meter
  and accents unchanged, nothing thrown, and no observer notified (the trace is part of the
  state).
\<close>

theorem setMeter_rejects:
  assumes "m < 1"
  shows "setMeter m a s = Returned s \<and> set_meter m s = Returned s"
  using assms by (simp add: setMeter_def set_meter_def)

theorem setMeter_rejects_witness:
  "(0 :: int) < 1 \<and> setMeter 0 (Some [True, False]) (onStateChange 3 fresh) = Returned (onStateChange 3 fresh) \<and>
   set_meter 0 (onStateChange 3 fresh) = Returned (onStateChange 3 fresh)"
  using setMeter_rejects [of 0 "Some [True, False]" "onStateChange 3 fresh"] by simp

text \<open>
  C5 holds for every write through the \<^verbatim>\<open>bpm\<close> setter and through \<^verbatim>\<open>handle(newBpm)\<close>, which
  clamp, and fails at construction, which does not: \<^verbatim>\<open>new MetronomeCore({ bpm: 1000 })\<close> has
  bpm \<open>1000\<close> with the default bounds \<open>30\<close> and \<open>300\<close>.
\<close>

theorem constructor_stores_bpm_unclamped:
  "constructor (emptyConfig\<lparr> cfg_bpm := Some 1000 \<rparr>) = Inr (fresh\<lparr> bpm := 1000 \<rparr>) \<and>
   bpm (fresh\<lparr> bpm := 1000 \<rparr>) = 1000 \<and> minBpm (fresh\<lparr> bpm := 1000 \<rparr>) = 30 \<and>
   maxBpm (fresh\<lparr> bpm := 1000 \<rparr>) = 300"
  by (simp add: constructor_bpm) (simp add: fresh_def)


text \<open>
  C6, as the code has it. The accents array has the length of the meter after a
  construction that is given no accents, and keeps it along every run of operations in
  which each accents array that is supplied (to the \<^verbatim>\<open>accents\<close> setter or to \<^verbatim>\<open>setMeter\<close>) has
  the length of the meter it is supplied for and each meter set without accents is at
  most \<open>2^32 - 1\<close>; a meter set without accents re-derives the array as \<open>[True, False, \<dots>]\<close>.
  An array that is supplied is adopted as it is, whatever its length, by the \<^verbatim>\<open>accents\<close>
  setter, by \<^verbatim>\<open>setMeter\<close> and by the constructor.
\<close>

theorem accents_length:
  "(constructor (c\<lparr> cfg_accents := None \<rparr>) = Inr s0 \<longrightarrow> int (length (accents s0)) = meter s0) \<and>
   (int (length (accents s)) = meter s \<and> fitting ops s \<and> run ops s = Some s' \<longrightarrow>
      int (length (accents s')) = meter s') \<and>
   (1 \<le> m \<and> m \<le> 4294967295 \<longrightarrow>
      set_meter m s = setMeter m None s \<and>
      accents (state_of (setMeter m None s)) = True # replicate (nat m - 1) False \<and>
      meter (state_of (setMeter m None s)) = m) \<and>
   accents (set_accents a s) = a \<and> meter (set_accents a s) = meter s \<and>
   (1 \<le> m \<longrightarrow> accents (state_of (setMeter m (Some a) s)) = a \<and>
      meter (state_of (setMeter m (Some a) s)) = m) \<and>
   (\<exists>s1. constructor (c\<lparr> cfg_accents := Some a \<rparr>) = Inr s1 \<and>
      accents s1 = a \<and> meter s1 = nullish (cfg_meter c) 4)"
proof (intro conjI impI)
  assume "constructor (c\<lparr> cfg_accents := None \<rparr>) = Inr s0"
  then show "int (length (accents s0)) = meter s0"
    using constructor_default_accents [of "c\<lparr> cfg_accents := None \<rparr>" s0] by simp
next
  assume "int (length (accents s)) = meter s \<and> fitting ops s \<and> run ops s = Some s'"
  then show "int (length (accents s')) = meter s'"
    using fitting_run by blast
next
  show "set_meter m s = setMeter m None s" by (rule set_meter_setMeter)
next
  assume "1 \<le> m \<and> m \<le> 4294967295"
  then show "accents (state_of (setMeter m None s)) = True # replicate (nat m - 1) False"
    by (simp add: setMeter_def Let_def default_accents notifyStateChange_eq)
next
  assume "1 \<le> m \<and> m \<le> 4294967295"
  then show "meter (state_of (setMeter m None s)) = m"
    by (simp add: setMeter_def Let_def default_accents notifyStateChange_eq)
next
  show "accents (set_accents a s) = a" by (simp add: set_accents_eq)
next
  show "meter (set_accents a s) = meter s" by (simp add: set_accents_eq)
next
  assume "1 \<le> m"
  then show "accents (state_of (setMeter m (Some a) s)) = a"
    by (simp add: setMeter_def Let_def notifyStateChange_eq)
next
  assume "1 \<le> m"
  then show "meter (state_of (setMeter m (Some a) s)) = m"
    by (simp add: setMeter_def Let_def notifyStateChange_eq)
next
  show "\<exists>s1. constructor (c\<lparr> cfg_accents := Some a \<rparr>) = Inr s1 \<and>
      accents s1 = a \<and> meter s1 = nullish (cfg_meter c) 4"
    by (simp add: constructor_def Let_def)
qed

theorem accents_length_witness:
  "constructor (emptyConfig\<lparr> cfg_accents := None \<rparr>) = Inr fresh \<and>
   int (length (accents fresh)) = meter fresh \<and>
   fitting [SetMeter 3 None, SetAccents [True, True, False], Start 0, ToggleAccent 1,
            SetMeterProperty 5] fresh \<and>
   (\<exists>s'. run [SetMeter 3 None, SetAccents [True, True, False], Start 0, ToggleAccent 1,
              SetMeterProperty 5] fresh = Some s' \<and>
      int (length (accents s')) = meter s') \<and>
   (1 :: int) \<le> 3 \<and> (3 :: int) \<le> 4294967295 \<and>
   accents (state_of (setMeter 3 None fresh)) = [True, False, False] \<and>
   accents (state_of (setMeter 3 (Some [True]) fresh)) = [True]"
proof -
  define ops where "ops = [SetMeter 3 None, SetAccents [True, True, False], Start 0,
    ToggleAccent 1, SetMeterProperty 5]"
  have e: "emptyConfig\<lparr> cfg_accents := None \<rparr> = emptyConfig" by (simp add: emptyConfig_def)
  have h1: "constructor (emptyConfig\<lparr> cfg_accents := None \<rparr>) = Inr fresh"
    by (simp only: e constructor_empty)
  have h2: "int (length (accents fresh)) = meter fresh" by (simp add: fresh_def)
  have h3: "fitting ops fresh"
    by (simp add: ops_def fresh_def start_def initAudioContext_def scheduleLoop_def
      scheduleWhile.simps scheduleBody_eq tick_eq notifyStateChange_eq setMeter_def set_meter_def
      set_accents_def toggleAccent_def createDefaultAccents_def new_Array_fill_def Let_def
      nextPulse_def rendering_def accentAt_def js_index_def state_def playEvents_def
      eval_nat_numeral emit_def)
  have "\<exists>s'. run ops fresh = Some s'"
    by (simp add: ops_def fresh_def start_def initAudioContext_def scheduleLoop_def
      scheduleWhile.simps scheduleBody_eq tick_eq notifyStateChange_eq setMeter_def set_meter_def
      set_accents_def toggleAccent_def createDefaultAccents_def new_Array_fill_def Let_def
      nextPulse_def rendering_def accentAt_def js_index_def state_def playEvents_def
      eval_nat_numeral emit_def)
  then obtain s' where h4: "run ops fresh = Some s'" by blast
  have "int (length (accents s')) = meter s' \<and>
      accents (state_of (setMeter 3 None fresh)) = True # replicate (nat 3 - 1) False \<and>
      accents (state_of (setMeter 3 (Some [True]) fresh)) = [True]"
    using accents_length [where c = emptyConfig and ?s0.0 = fresh and s = fresh and ops = ops
        and s' = s' and m = 3 and a = "[True]"] h1 h2 h3 h4
    by simp
  then show ?thesis
    using h1 h2 h3 h4 unfolding ops_def by (simp add: eval_nat_numeral)
qed

text \<open>
  C6 as stated fails at the \<^verbatim>\<open>accents\<close> setter: \<^verbatim>\<open>metronome.accents = [true]\<close> on a new
  metronome leaves an accents array of length \<open>1\<close> with meter \<open>4\<close>.
\<close>

theorem accents_length_counterexample:
  "int (length (accents (set_accents [True] fresh))) = 1 \<and> meter (set_accents [True] fresh) = 4"
  by (simp add: set_accents_eq fresh_def)

text \<open>
  C8. Let a callback be registered once as a tick observer, and let the function that
  \<^verbatim>\<open>onTick\<close> returned for it be called. Then whatever happens to the metronome afterwards,
  short of registering the callback again, the callback receives no further tick call.
  The same holds for a state-change observer and the function that \<^verbatim>\<open>onStateChange\<close>
  returned. Every other callback stays registered as often as it was, and every following
  tick, respectively state-change notification, calls it that often.
\<close>

theorem unsubscribed_never_called:
  "(count_list (tickCallbacks s) cb = 1 \<and> OnTick cb \<notin> set ops \<and>
      run ops (unsubscribeTick cb s) = Some s' \<longrightarrow>
        tickCalls cb (trace s') = tickCalls cb (trace s)) \<and>
   (count_list (stateChangeCallbacks s) cb = 1 \<and> OnStateChange cb \<notin> set ops \<and>
      run ops (unsubscribeStateChange cb s) = Some s' \<longrightarrow>
        stateCalls cb (trace s') = stateCalls cb (trace s)) \<and>
   (c \<noteq> cb \<longrightarrow>
      count_list (tickCallbacks (unsubscribeTick cb s)) c = count_list (tickCallbacks s) c \<and>
      tickCalls c (trace (tick t (unsubscribeTick cb s))) =
        tickCalls c (trace s) @
          replicate (count_list (tickCallbacks s) c) (pulse (tick t s), accentAt s, t) \<and>
      count_list (stateChangeCallbacks (unsubscribeStateChange cb s)) c
        = count_list (stateChangeCallbacks s) c \<and>
      stateCalls c (trace (notifyStateChange (unsubscribeStateChange cb s))) =
        stateCalls c (trace s) @ replicate (count_list (stateChangeCallbacks s) c) (state s))"
proof (intro conjI impI)
  assume a: "count_list (tickCallbacks s) cb = 1 \<and> OnTick cb \<notin> set ops \<and>
      run ops (unsubscribeTick cb s) = Some s'"
  then have "count_list (tickCallbacks (unsubscribeTick cb s)) cb = 0"
    by (simp add: unsubscribeTick_eq count_list_remove1)
  then have "cb \<notin> set (tickCallbacks (unsubscribeTick cb s))"
    by (simp add: count_list_0_iff)
  then have "tick_silent cb (unsubscribeTick cb s) s'"
    using a tick_silent_run by blast
  then show "tickCalls cb (trace s') = tickCalls cb (trace s)"
    by (simp add: tick_silent_def unsubscribeTick_eq)
next
  assume a: "count_list (stateChangeCallbacks s) cb = 1 \<and> OnStateChange cb \<notin> set ops \<and>
      run ops (unsubscribeStateChange cb s) = Some s'"
  then have "count_list (stateChangeCallbacks (unsubscribeStateChange cb s)) cb = 0"
    by (simp add: unsubscribeStateChange_eq count_list_remove1)
  then have "cb \<notin> set (stateChangeCallbacks (unsubscribeStateChange cb s))"
    by (simp add: count_list_0_iff)
  then have "state_silent cb (unsubscribeStateChange cb s) s'"
    using a state_silent_run by blast
  then show "stateCalls cb (trace s') = stateCalls cb (trace s)"
    by (simp add: state_silent_def unsubscribeStateChange_eq)
next
  assume "c \<noteq> cb"
  then show "count_list (tickCallbacks (unsubscribeTick cb s)) c = count_list (tickCallbacks s) c"
    by (simp add: unsubscribeTick_eq count_list_remove1)
next
  assume "c \<noteq> cb"
  then show "tickCalls c (trace (tick t (unsubscribeTick cb s))) =
        tickCalls c (trace s) @
          replicate (count_list (tickCallbacks s) c) (pulse (tick t s), accentAt s, t)"
    by (simp add: tick_tickCalls tick_frame)
       (simp add: unsubscribeTick_eq count_list_remove1 nextPulse_def accentAt_def)
next
  assume "c \<noteq> cb"
  then show "count_list (stateChangeCallbacks (unsubscribeStateChange cb s)) c
        = count_list (stateChangeCallbacks s) c"
    by (simp add: unsubscribeStateChange_eq count_list_remove1)
next
  assume "c \<noteq> cb"
  then show "stateCalls c (trace (notifyStateChange (unsubscribeStateChange cb s))) =
        stateCalls c (trace s) @ replicate (count_list (stateChangeCallbacks s) c) (state s)"
    by (simp add: notifyStateChange_eq reader_simps)
       (simp add: unsubscribeStateChange_eq count_list_remove1 state_def)
qed

theorem unsubscribed_never_called_witness:
  "count_list (tickCallbacks observed) 7 = 1 \<and> count_list (stateChangeCallbacks observed) 7 = 1 \<and>
   OnTick 7 \<notin> set [Start 0, TimerFires 1, SetBpm 100, Stop 2] \<and>
   OnStateChange 7 \<notin> set [Start 0, TimerFires 1, SetBpm 100, Stop 2] \<and>
   (\<exists>s'. run [Start 0, TimerFires 1, SetBpm 100, Stop 2] (unsubscribeTick 7 observed) = Some s' \<and>
      tickCalls 7 (trace s') = []) \<and>
   (\<exists>s'. run [Start 0, TimerFires 1, SetBpm 100, Stop 2] (unsubscribeStateChange 7 observed) = Some s' \<and>
      stateCalls 7 (trace s') = []) \<and>
   (8 :: nat) \<noteq> 7 \<and>
   tickCalls 8 (trace (tick 0 (unsubscribeTick 7 observed))) = [(1, True, 0)] \<and>
   stateCalls 8 (trace (notifyStateChange (unsubscribeStateChange 7 observed))) = [state observed]"
proof -
  define ops where "ops = [Start 0, TimerFires 1, SetBpm 100, Stop 2]"
  have h: "count_list (tickCallbacks observed) 7 = 1"
    "count_list (stateChangeCallbacks observed) 7 = 1"
    "OnTick 7 \<notin> set ops" "OnStateChange 7 \<notin> set ops" "(8 :: nat) \<noteq> 7"
    by (simp_all add: ops_def observed_def onTick_def onStateChange_def fresh_def)
  have c: "tickCalls 7 (trace observed) = []" "stateCalls 7 (trace observed) = []"
    "tickCalls 8 (trace observed) = []" "stateCalls 8 (trace observed) = []"
    "count_list (tickCallbacks observed) 8 = 1" "count_list (stateChangeCallbacks observed) 8 = 1"
    "pulse (tick 0 observed) = 1" "accentAt observed"
    by (simp_all add: observed_def onTick_def onStateChange_def fresh_def tick_frame
        nextPulse_def accentAt_def js_index_def)
  have "\<exists>s'. run ops (unsubscribeTick 7 observed) = Some s'"
    by (simp add: ops_def observed_def onTick_def onStateChange_def unsubscribeTick_eq fresh_def
      start_def initAudioContext_def scheduleLoop_def scheduleWhile.simps scheduleBody_eq tick_eq
      notifyStateChange_eq set_bpm_eq stop_eq Let_def nextPulse_def rendering_def accentAt_def
      js_index_def state_def eval_nat_numeral)
  then obtain s1 where r1: "run ops (unsubscribeTick 7 observed) = Some s1" by blast
  have "\<exists>s'. run ops (unsubscribeStateChange 7 observed) = Some s'"
    by (simp add: ops_def observed_def onTick_def onStateChange_def unsubscribeStateChange_eq
      fresh_def start_def initAudioContext_def scheduleLoop_def scheduleWhile.simps
      scheduleBody_eq tick_eq notifyStateChange_eq set_bpm_eq stop_eq Let_def nextPulse_def
      rendering_def accentAt_def js_index_def state_def eval_nat_numeral)
  then obtain s2 where r2: "run ops (unsubscribeStateChange 7 observed) = Some s2" by blast
  have 1: "tickCalls 7 (trace s1) = []"
    using unsubscribed_never_called [where s = observed and cb = 7 and ops = ops and s' = s1
        and c = 8 and t = 0] h c r1 by simp
  have 2: "stateCalls 7 (trace s2) = []"
    using unsubscribed_never_called [where s = observed and cb = 7 and ops = ops and s' = s2
        and c = 8 and t = 0] h c r2 by simp
  have 3: "tickCalls 8 (trace (tick 0 (unsubscribeTick 7 observed))) = [(1, True, 0)] \<and>
      stateCalls 8 (trace (notifyStateChange (unsubscribeStateChange 7 observed))) = [state observed]"
    using unsubscribed_never_called [where s = observed and cb = 7 and ops = ops and s' = s1
        and c = 8 and t = 0] h c by simp
  show ?thesis
    using h c r1 r2 1 2 3 unfolding ops_def by simp
qed

end
